theory Spec2Isabelle
  imports Main
begin

section \<open>Strings and exceptions\<close>

text \<open>
  A Python \<open>str\<close> is a sequence of Unicode code points; \<open>len\<close> counts code points and
  \<open>str.isdigit\<close> looks at the Unicode properties of each of them. The model therefore takes
  a string to be the list of its code points. String literals of the source are written as
  HOL strings and converted with \<open>ascii\<close>.
\<close>

type_synonym pystr = "nat list"

definition ascii :: "string \<Rightarrow> pystr" where
  "ascii s = map of_char s"

text \<open>
  Exceptions are values. A \<open>ValueError\<close> carries its message, which is how the source tells
  its failures apart: every failure the source raises itself is a \<open>ValueError\<close>.
\<close>

datatype error =
    ValueError pystr
  | OverflowError pystr
  | FileNotFoundError
  | IsADirectoryError
  | PermissionError
  | EOFError
  | OtherError pystr

definition in_ranges :: "(nat \<times> nat) list \<Rightarrow> nat \<Rightarrow> bool" where
  "in_ranges rs c = list_ex (\<lambda>(lo, hi). lo \<le> c \<and> c \<le> hi) rs"

text \<open>
  The code points for which \<open>str.isdigit\<close> holds (Numeric_Type Digit or Decimal), as
  inclusive ranges, from the Unicode 14.0 character database of CPython 3.11.
\<close>

definition isdigit_ranges :: "(nat \<times> nat) list" where
  "isdigit_ranges =
   [(48, 57), (178, 179), (185, 185), (1632, 1641), (1776, 1785), (1984, 1993), (2406, 2415),
    (2534, 2543), (2662, 2671), (2790, 2799), (2918, 2927), (3046, 3055), (3174, 3183),
    (3302, 3311), (3430, 3439), (3558, 3567), (3664, 3673), (3792, 3801), (3872, 3881),
    (4160, 4169), (4240, 4249), (4969, 4977), (6112, 6121), (6160, 6169), (6470, 6479),
    (6608, 6618), (6784, 6793), (6800, 6809), (6992, 7001), (7088, 7097), (7232, 7241),
    (7248, 7257), (8304, 8304), (8308, 8313), (8320, 8329), (9312, 9320), (9332, 9340),
    (9352, 9360), (9450, 9450), (9461, 9469), (9471, 9471), (10102, 10110), (10112, 10120),
    (10122, 10130), (42528, 42537), (43216, 43225), (43264, 43273), (43472, 43481),
    (43504, 43513), (43600, 43609), (44016, 44025), (65296, 65305), (66720, 66729),
    (68160, 68163), (68912, 68921), (69216, 69224), (69714, 69722), (69734, 69743),
    (69872, 69881), (69942, 69951), (70096, 70105), (70384, 70393), (70736, 70745),
    (70864, 70873), (71248, 71257), (71360, 71369), (71472, 71481), (71904, 71913),
    (72016, 72025), (72784, 72793), (73040, 73049), (73120, 73129), (92768, 92777),
    (92864, 92873), (93008, 93017), (120782, 120831), (123200, 123209), (123632, 123641),
    (125264, 125273), (127232, 127242), (130032, 130041)]"

text \<open>
  The code points for which \<open>str.isdecimal\<close> holds (General_Category Nd); these are the
  characters a regular expression's \<open>\d\<close> matches on a \<open>str\<close> and the ones \<open>int\<close>
  converts. Every range starts at a digit zero and holds whole runs of the ten digits.
\<close>

definition isdecimal_ranges :: "(nat \<times> nat) list" where
  "isdecimal_ranges =
   [(48, 57), (1632, 1641), (1776, 1785), (1984, 1993), (2406, 2415), (2534, 2543),
    (2662, 2671), (2790, 2799), (2918, 2927), (3046, 3055), (3174, 3183), (3302, 3311),
    (3430, 3439), (3558, 3567), (3664, 3673), (3792, 3801), (3872, 3881), (4160, 4169),
    (4240, 4249), (6112, 6121), (6160, 6169), (6470, 6479), (6608, 6617), (6784, 6793),
    (6800, 6809), (6992, 7001), (7088, 7097), (7232, 7241), (7248, 7257), (42528, 42537),
    (43216, 43225), (43264, 43273), (43472, 43481), (43504, 43513), (43600, 43609),
    (44016, 44025), (65296, 65305), (66720, 66729), (68912, 68921), (69734, 69743),
    (69872, 69881), (69942, 69951), (70096, 70105), (70384, 70393), (70736, 70745),
    (70864, 70873), (71248, 71257), (71360, 71369), (71472, 71481), (71904, 71913),
    (72016, 72025), (72784, 72793), (73040, 73049), (73120, 73129), (92768, 92777),
    (92864, 92873), (93008, 93017), (120782, 120831), (123200, 123209), (123632, 123641),
    (125264, 125273), (130032, 130041)]"

definition cp_isdigit :: "nat \<Rightarrow> bool" where
  "cp_isdigit c = in_ranges isdigit_ranges c"

definition cp_isdecimal :: "nat \<Rightarrow> bool" where
  "cp_isdecimal c = in_ranges isdecimal_ranges c"

text \<open>\<open>str.isdigit\<close>: all characters are digits and there is at least one character.\<close>

definition isdigit :: "pystr \<Rightarrow> bool" where
  "isdigit s = (s \<noteq> [] \<and> list_all cp_isdigit s)"

section \<open>Fields\<close>

text \<open>
  \<open>Name.__init__\<close>: \<open>if not value: raise ValueError("Name cannot be empty.")\<close>.
\<close>

definition Name :: "pystr \<Rightarrow> error + pystr" where
  "Name v = (if v = [] then Inl (ValueError (ascii ''Name cannot be empty.'')) else Inr v)"

text \<open>
  \<open>Phone.__init__\<close>:
  \<open>if not value.isdigit() or len(value) != 10: raise ValueError(...)\<close>; otherwise the
  value is stored as it is.
\<close>

definition Phone :: "pystr \<Rightarrow> error + pystr" where
  "Phone v =
     (if \<not> isdigit v \<or> length v \<noteq> 10
      then Inl (ValueError (ascii ''Phone must contain exactly 10 digits''))
      else Inr v)"

section \<open>Calendar dates\<close>

text \<open>
  \<open>datetime.date\<close> of the standard library: a proleptic Gregorian date with
  \<open>1 \<le> year \<le> 9999\<close>. The tables and formulas are the library's own
  (\<open>_is_leap\<close>, \<open>_days_before_year\<close>, \<open>_days_in_month\<close>, \<open>_days_before_month\<close>,
  \<open>_ymd2ord\<close>); the tables carry a dummy entry at index 0 so that the month indexes them.
\<close>

record date =
  year :: int
  month :: int
  day :: int

definition is_leap :: "int \<Rightarrow> bool" where
  "is_leap y = (y mod 4 = 0 \<and> (y mod 100 \<noteq> 0 \<or> y mod 400 = 0))"

definition days_before_year :: "int \<Rightarrow> int" where
  "days_before_year y = (let p = y - 1 in p * 365 + p div 4 - p div 100 + p div 400)"

definition DAYS_IN_MONTH :: "int list" where
  "DAYS_IN_MONTH = [-1, 31, 28, 31, 30, 31, 30, 31, 31, 30, 31, 30, 31]"

definition DAYS_BEFORE_MONTH :: "int list" where
  "DAYS_BEFORE_MONTH = [-1, 0, 31, 59, 90, 120, 151, 181, 212, 243, 273, 304, 334]"

definition days_in_month :: "int \<Rightarrow> int \<Rightarrow> int" where
  "days_in_month y m = (if m = 2 \<and> is_leap y then 29 else DAYS_IN_MONTH ! nat m)"

definition days_before_month :: "int \<Rightarrow> int \<Rightarrow> int" where
  "days_before_month y m =
     DAYS_BEFORE_MONTH ! nat m + (if m > 2 \<and> is_leap y then 1 else 0)"

definition valid_date :: "date \<Rightarrow> bool" where
  "valid_date d =
     (1 \<le> year d \<and> year d \<le> 9999 \<and> 1 \<le> month d \<and> month d \<le> 12 \<and>
      1 \<le> day d \<and> day d \<le> days_in_month (year d) (month d))"

definition toordinal :: "date \<Rightarrow> int" where
  "toordinal d = days_before_year (year d) + days_before_month (year d) (month d) + day d"

text \<open>\<open>date.weekday()\<close>: Monday is 0, Saturday 5, Sunday 6.\<close>

definition weekday :: "date \<Rightarrow> int" where
  "weekday d = (toordinal d + 6) mod 7"

text \<open>Dates compare as the tuples (year, month, day).\<close>

definition date_lt :: "date \<Rightarrow> date \<Rightarrow> bool" where
  "date_lt a b =
     (year a < year b \<or> (year a = year b \<and>
        (month a < month b \<or> (month a = month b \<and> day a < day b))))"

text \<open>\<open>str(n)\<close> for an integer.\<close>

fun decimal :: "nat \<Rightarrow> pystr" where
  "decimal n = (if n < 10 then [48 + n] else decimal (n div 10) @ [48 + n mod 10])"

declare decimal.simps [simp del]

definition str_int :: "int \<Rightarrow> pystr" where
  "str_int i = (if i < 0 then 45 # decimal (nat (- i)) else decimal (nat i))"

text \<open>
  The constructor \<open>date(y, m, d)\<close> checks its fields and raises \<open>ValueError\<close> otherwise;
  \<open>d.replace(year=y)\<close> constructs a new date from \<open>y\<close> and the month and day of \<open>d\<close>.
\<close>

definition mk_date :: "int \<Rightarrow> int \<Rightarrow> int \<Rightarrow> error + date" where
  "mk_date y m d =
     (if y < 1 \<or> 9999 < y
      then Inl (ValueError (ascii ''year '' @ str_int y @ ascii '' is out of range''))
      else if m < 1 \<or> 12 < m then Inl (ValueError (ascii ''month must be in 1..12''))
      else if d < 1 \<or> days_in_month y m < d
      then Inl (ValueError (ascii ''day is out of range for month''))
      else Inr \<lparr>year = y, month = m, day = d\<rparr>)"

definition replace_year :: "date \<Rightarrow> int \<Rightarrow> error + date" where
  "replace_year d y = mk_date y (month d) (day d)"

text \<open>
  \<open>d + timedelta(days=k)\<close> for \<open>k \<ge> 0\<close> is the date \<open>k\<close> days after \<open>d\<close>, or
  \<open>OverflowError\<close> beyond 31.12.9999. The model steps the calendar \<open>k\<close> times.
\<close>

definition next_day :: "date \<Rightarrow> error + date" where
  "next_day d =
     (if day d < days_in_month (year d) (month d) then Inr (d\<lparr>day := day d + 1\<rparr>)
      else if month d < 12 then Inr \<lparr>year = year d, month = month d + 1, day = 1\<rparr>
      else if year d < 9999 then Inr \<lparr>year = year d + 1, month = 1, day = 1\<rparr>
      else Inl (OverflowError (ascii ''date value out of range'')))"

fun add_days :: "date \<Rightarrow> nat \<Rightarrow> error + date" where
  "add_days d 0 = Inr d"
| "add_days d (Suc k) = (case next_day d of Inl e \<Rightarrow> Inl e | Inr d' \<Rightarrow> add_days d' k)"

subsection \<open>Formatting with \<open>%d.%m.%Y\<close>\<close>

text \<open>
  \<open>%d\<close> and \<open>%m\<close> are two digits, zero padded. \<open>%Y\<close> is the year in decimal; the C
  library that CPython calls on Linux does not pad a year below 1000.
\<close>

definition pad2 :: "int \<Rightarrow> pystr" where
  "pad2 n = [48 + nat (n div 10), 48 + nat (n mod 10)]"

definition strftime_dmY :: "date \<Rightarrow> pystr" where
  "strftime_dmY d = pad2 (day d) @ [46] @ pad2 (month d) @ [46] @ decimal (nat (year d))"

subsection \<open>Parsing with \<open>%d.%m.%Y\<close>\<close>

text \<open>
  \<open>datetime.strptime\<close> turns the format into the regular expression
  \<^verbatim>\<open>(?P<d>3[0-1]|[1-2]\d|0[1-9]|[1-9]| [1-9])\.(?P<m>1[0-2]|0[1-9]|[1-9])\.(?P<Y>\d\d\d\d)\<close>,
  matches it at the start of the string, rejects the string when the match does not
  consume all of it, converts the three groups with \<open>int\<close> and constructs the date.
  A regular expression is modelled by the list of its matches at the start of a string,
  in the order in which a backtracking matcher tries them; each match is the matched text
  and the rest of the string.
\<close>

type_synonym rx = "pystr \<Rightarrow> (pystr \<times> pystr) list"

definition rx_set :: "(nat \<Rightarrow> bool) \<Rightarrow> rx" where
  "rx_set P s = (case s of [] \<Rightarrow> [] | c # r \<Rightarrow> if P c then [([c], r)] else [])"

definition rx_seq :: "rx \<Rightarrow> rx \<Rightarrow> rx" where
  "rx_seq a b s = concat (map (\<lambda>(t1, r1). map (\<lambda>(t2, r2). (t1 @ t2, r2)) (b r1)) (a s))"

definition rx_alt :: "rx \<Rightarrow> rx \<Rightarrow> rx" where
  "rx_alt a b s = a s @ b s"

definition rx_chr :: "nat \<Rightarrow> rx" where
  "rx_chr c = rx_set (\<lambda>x. x = c)"

definition rx_rng :: "nat \<Rightarrow> nat \<Rightarrow> rx" where
  "rx_rng lo hi = rx_set (\<lambda>x. lo \<le> x \<and> x \<le> hi)"

definition rx_digit :: rx where
  "rx_digit = rx_set cp_isdecimal"

definition re_d :: rx where
  "re_d = rx_alt (rx_seq (rx_chr 51) (rx_rng 48 49))
         (rx_alt (rx_seq (rx_rng 49 50) rx_digit)
         (rx_alt (rx_seq (rx_chr 48) (rx_rng 49 57))
         (rx_alt (rx_rng 49 57)
                 (rx_seq (rx_chr 32) (rx_rng 49 57)))))"

definition re_m :: rx where
  "re_m = rx_alt (rx_seq (rx_chr 49) (rx_rng 48 50))
         (rx_alt (rx_seq (rx_chr 48) (rx_rng 49 57))
                 (rx_rng 49 57))"

definition re_Y :: rx where
  "re_Y = rx_seq rx_digit (rx_seq rx_digit (rx_seq rx_digit rx_digit))"

text \<open>
  Matching one expression and going on with the rest of a pattern: every match of the
  first, in order, followed by what the rest makes of it.
\<close>

definition rx_then :: "rx \<Rightarrow> (pystr \<Rightarrow> pystr \<Rightarrow> 'a list) \<Rightarrow> pystr \<Rightarrow> 'a list" where
  "rx_then a k s = concat (map (\<lambda>(t, r). k t r) (a s))"

definition re_dmY :: "pystr \<Rightarrow> (pystr \<times> pystr \<times> pystr \<times> pystr) list" where
  "re_dmY s =
     rx_then re_d (\<lambda>d r1.
     rx_then (rx_chr 46) (\<lambda>_ r2.
     rx_then re_m (\<lambda>m r3.
     rx_then (rx_chr 46) (\<lambda>_ r4.
     rx_then re_Y (\<lambda>y r5. [(d, m, y, r5)]) r4) r3) r2) r1) s"

text \<open>
  \<open>int\<close> on a group of the expression: leading blanks are skipped, and every decimal
  digit of Unicode counts with its value, which is its offset in its run of ten.
\<close>

definition cp_decimal_value :: "nat \<Rightarrow> int" where
  "cp_decimal_value c =
     (case List.find (\<lambda>(lo, hi). lo \<le> c \<and> c \<le> hi) isdecimal_ranges of
        Some (lo, hi) \<Rightarrow> int ((c - lo) mod 10)
      | None \<Rightarrow> 0)"

definition py_int :: "pystr \<Rightarrow> int" where
  "py_int s = foldl (\<lambda>a c. 10 * a + cp_decimal_value c) 0 (dropWhile (\<lambda>c. c = 32) s)"

text \<open>
  The messages of the two failures of \<open>strptime\<close> itself quote the data; they are
  shortened here, since \<open>Birthday\<close> replaces them.
\<close>

definition strptime_dmY :: "pystr \<Rightarrow> error + date" where
  "strptime_dmY s =
     (case re_dmY s of
        [] \<Rightarrow> Inl (ValueError (ascii ''time data does not match format''))
      | (d, m, y, rest) # _ \<Rightarrow>
          if rest \<noteq> [] then Inl (ValueError (ascii ''unconverted data remains''))
          else mk_date (py_int y) (py_int m) (py_int d))"

text \<open>
  \<open>Birthday.__init__\<close>: \<open>datetime.strptime(value, "%d.%m.%Y").date()\<close>, any
  \<open>ValueError\<close> replaced by the class's own.
\<close>

definition Birthday :: "pystr \<Rightarrow> error + date" where
  "Birthday v =
     (case strptime_dmY v of
        Inl (ValueError _) \<Rightarrow>
          Inl (ValueError (ascii ''Birthday must be in the format DD.MM.YYYY.''))
      | Inl e \<Rightarrow> Inl e
      | Inr d \<Rightarrow> Inr d)"

section \<open>Record\<close>

text \<open>
  A record holds its name, the list of its \<open>Phone\<close> objects and an optional birthday.
  Every \<open>Phone\<close> object is created by \<open>add_phone\<close> and appended once, so no object occurs
  twice in the list and the list of the objects' values describes it: changing the value
  of the object at a position is changing the list at that position.
\<close>

record Record =
  name :: pystr
  phones :: "pystr list"
  birthday :: "date option"

definition Record_init :: "pystr \<Rightarrow> error + Record" where
  "Record_init nm =
     (case Name nm of
        Inl e \<Rightarrow> Inl e
      | Inr v \<Rightarrow> Inr \<lparr>name = v, phones = [], birthday = None\<rparr>)"

text \<open>\<open>find_phone\<close> returns the first object whose value is \<open>phone\<close>: here, its position.\<close>

fun find_phone :: "pystr list \<Rightarrow> pystr \<Rightarrow> nat option" where
  "find_phone [] phone = None"
| "find_phone (p # ps) phone =
     (if p = phone then Some 0 else map_option Suc (find_phone ps phone))"

text \<open>
  The methods below change the record they are called on and return nothing. Each is a
  function from the record before the call to the record after it, paired with the
  outcome of the call: \<open>None\<close> when it returns, \<open>Some e\<close> when it raises \<open>e\<close>.
\<close>

definition add_phone :: "Record \<Rightarrow> pystr \<Rightarrow> Record \<times> error option" where
  "add_phone r phone =
     (if phone \<notin> set (phones r)
      then (case Phone phone of
              Inl e \<Rightarrow> (r, Some e)
            | Inr v \<Rightarrow> (r\<lparr>phones := phones r @ [v]\<rparr>, None))
      else (r, None))"

definition remove_phone :: "Record \<Rightarrow> pystr \<Rightarrow> Record \<times> error option" where
  "remove_phone r phone =
     (case find_phone (phones r) phone of
        Some i \<Rightarrow> (r\<lparr>phones := take i (phones r) @ drop (Suc i) (phones r)\<rparr>, None)
      | None \<Rightarrow> (r, Some (ValueError (ascii ''Phone not found''))))"

text \<open>
  In \<open>phone_obj.value = Phone(new_phone).value\<close> the right-hand side is evaluated first,
  so a failing \<open>Phone\<close> leaves the object as it was.
\<close>

definition edit_phone :: "Record \<Rightarrow> pystr \<Rightarrow> pystr \<Rightarrow> Record \<times> error option" where
  "edit_phone r old_phone new_phone =
     (case find_phone (phones r) old_phone of
        Some i \<Rightarrow>
          (case Phone new_phone of
             Inl e \<Rightarrow> (r, Some e)
           | Inr v \<Rightarrow> (r\<lparr>phones := (phones r)[i := v]\<rparr>, None))
      | None \<Rightarrow> (r, Some (ValueError (ascii ''Old phone not found''))))"

definition add_birthday :: "Record \<Rightarrow> pystr \<Rightarrow> Record \<times> error option" where
  "add_birthday r v =
     (case Birthday v of
        Inl e \<Rightarrow> (r, Some e)
      | Inr d \<Rightarrow> (r\<lparr>birthday := Some d\<rparr>, None))"

section \<open>AddressBook\<close>

text \<open>
  The book is a \<open>UserDict\<close>: a dictionary from names to records that keeps the order in
  which keys were first inserted. It is modelled by the list of its items in that order.
  Storing under a key that is present replaces the value where it stands.
\<close>

type_synonym AddressBook = "(pystr \<times> Record) list"

fun dict_set :: "'k \<Rightarrow> 'v \<Rightarrow> ('k \<times> 'v) list \<Rightarrow> ('k \<times> 'v) list" where
  "dict_set k v [] = [(k, v)]"
| "dict_set k v ((k', v') # kvs) =
     (if k' = k then (k, v) # kvs else (k', v') # dict_set k v kvs)"

definition add_record :: "AddressBook \<Rightarrow> Record \<Rightarrow> AddressBook" where
  "add_record book r = dict_set (name r) r book"

text \<open>\<open>AddressBook.find\<close>, named \<open>find_record\<close> here.\<close>

definition find_record :: "AddressBook \<Rightarrow> pystr \<Rightarrow> Record option" where
  "find_record book nm = map_of book nm"

text \<open>\<open>delete\<close> changes the book: the book after the call and the outcome, as above.\<close>

definition delete :: "AddressBook \<Rightarrow> pystr \<Rightarrow> AddressBook \<times> error option" where
  "delete book nm =
     (if nm \<in> fst ` set book then (filter (\<lambda>(k, r). k \<noteq> nm) book, None)
      else (book, Some (ValueError (ascii ''Contact not found''))))"

subsection \<open>Upcoming birthdays\<close>

text \<open>
  The body of the loop of \<open>get_upcoming_birthdays\<close> for a record with a birthday, in two
  steps: the occurrence of the birthday that is looked at, then the date that is reported.
  \<open>today\<close> is the value of \<open>datetime.today().date()\<close>.
\<close>

definition next_occurrence :: "date \<Rightarrow> date \<Rightarrow> error + date" where
  "next_occurrence today b =
     (case replace_year b (year today) of
        Inl e \<Rightarrow> Inl e
      | Inr birthday_this_year \<Rightarrow>
          if date_lt birthday_this_year today
          then replace_year birthday_this_year (year today + 1)
          else Inr birthday_this_year)"

definition report_date :: "date \<Rightarrow> int \<Rightarrow> date \<Rightarrow> error + date option" where
  "report_date today days b =
     (case next_occurrence today b of
        Inl e \<Rightarrow> Inl e
      | Inr birthday_this_year \<Rightarrow>
          (let days_until_birthday = toordinal birthday_this_year - toordinal today in
           if 0 \<le> days_until_birthday \<and> days_until_birthday \<le> days
           then (if weekday birthday_this_year \<ge> 5
                 then (case add_days birthday_this_year
                              (nat (7 - weekday birthday_this_year)) of
                         Inl e \<Rightarrow> Inl e
                       | Inr shifted \<Rightarrow> Inr (Some shifted))
                 else Inr (Some birthday_this_year))
           else Inr None))"

definition birthday_line :: "Record \<Rightarrow> date \<Rightarrow> pystr" where
  "birthday_line r d = ascii ''Name: '' @ name r @ ascii '', birthday: '' @ strftime_dmY d"

fun upcoming_loop :: "date \<Rightarrow> int \<Rightarrow> Record list \<Rightarrow> pystr list \<Rightarrow> error + pystr list" where
  "upcoming_loop today days [] upcoming_birthdays = Inr upcoming_birthdays"
| "upcoming_loop today days (r # rs) upcoming_birthdays =
     (case birthday r of
        None \<Rightarrow> upcoming_loop today days rs upcoming_birthdays
      | Some b \<Rightarrow>
          (case report_date today days b of
             Inl e \<Rightarrow> Inl e
           | Inr None \<Rightarrow> upcoming_loop today days rs upcoming_birthdays
           | Inr (Some d) \<Rightarrow>
               upcoming_loop today days rs (upcoming_birthdays @ [birthday_line r d])))"

definition get_upcoming_birthdays :: "AddressBook \<Rightarrow> date \<Rightarrow> int \<Rightarrow> error + pystr list" where
  "get_upcoming_birthdays book today days = upcoming_loop today days (map snd book) []"

section \<open>Persistence\<close>

text \<open>
  The file system gives, for a file name, what \<open>open(filename, "rb")\<close> and reading the
  file come to: the bytes of the file, or the error that is raised. That error is
  \<open>FileNotFoundError\<close> when there is no such file, \<open>IsADirectoryError\<close> when the name is
  a directory, \<open>PermissionError\<close> when the file may not be read, or another error of
  the operating system. \<open>pickle.load\<close> raises \<open>EOFError\<close> on an empty stream, before it
  decodes anything; what it makes of other bytes is the parameter \<open>unpickle\<close>.
\<close>

type_synonym filesystem = "pystr \<Rightarrow> error + nat list"

definition pickle_load :: "(nat list \<Rightarrow> error + AddressBook) \<Rightarrow> nat list \<Rightarrow> error + AddressBook" where
  "pickle_load unpickle bs = (if bs = [] then Inl EOFError else unpickle bs)"

definition open_rb :: "filesystem \<Rightarrow> pystr \<Rightarrow> error + nat list" where
  "open_rb fs filename = fs filename"

text \<open>
  \<open>load_data\<close>: the \<open>try\<close> block opens the file and decodes it; the \<open>except\<close> clause
  catches \<open>FileNotFoundError\<close> and \<open>EOFError\<close> and nothing else.
\<close>

definition load_data ::
  "(nat list \<Rightarrow> error + AddressBook) \<Rightarrow> filesystem \<Rightarrow> pystr \<Rightarrow> error + AddressBook" where
  "load_data unpickle fs filename =
     (case (case open_rb fs filename of
              Inl e \<Rightarrow> Inl e
            | Inr bs \<Rightarrow> pickle_load unpickle bs) of
        Inl FileNotFoundError \<Rightarrow> Inr []
      | Inl EOFError \<Rightarrow> Inr []
      | Inl e \<Rightarrow> Inl e
      | Inr book \<Rightarrow> Inr book)"

section \<open>Notions of the specification\<close>

text \<open>
  The specification's pattern for a phone, \<open>^[0-9]{10}$\<close>: exactly ten characters, each
  one of the ASCII digits.
\<close>

definition ascii_digit :: "nat \<Rightarrow> bool" where
  "ascii_digit c = (48 \<le> c \<and> c \<le> 57)"

definition ten_ascii_digits :: "pystr \<Rightarrow> bool" where
  "ten_ascii_digits raw = (length raw = 10 \<and> list_all ascii_digit raw)"

text \<open>
  The specification's rule for the upcoming birthdays: put the current year into the
  birthday; when that day is before today, take the occurrence of next year; the record
  is in the window when the number of days from today to that occurrence is between 0
  and \<open>days\<close>, both included.
\<close>

definition spec_occurrence :: "date \<Rightarrow> date \<Rightarrow> date" where
  "spec_occurrence today b =
     (if date_lt \<lparr>year = year today, month = month b, day = day b\<rparr> today
      then \<lparr>year = year today + 1, month = month b, day = day b\<rparr>
      else \<lparr>year = year today, month = month b, day = day b\<rparr>)"

definition days_until :: "date \<Rightarrow> date \<Rightarrow> int" where
  "days_until today b = toordinal (spec_occurrence today b) - toordinal today"

definition in_window :: "date \<Rightarrow> int \<Rightarrow> date \<Rightarrow> bool" where
  "in_window today days b = (0 \<le> days_until today b \<and> days_until today b \<le> days)"

definition selected :: "date \<Rightarrow> int \<Rightarrow> Record \<Rightarrow> bool" where
  "selected today days r =
     (case birthday r of None \<Rightarrow> False | Some b \<Rightarrow> in_window today days b)"

text \<open>
  The scenario of the specification: today is Sunday 10.03.2024; Anna's birthday is on
  12.03., Ben's on Saturday 16.03., Cid's was on 09.03.; Dan has none.
\<close>

definition scenario_today :: date where
  "scenario_today = \<lparr>year = 2024, month = 3, day = 10\<rparr>"


text \<open>
  The specification's textual form of a birthday, \<open>DD.MM.YYYY\<close>: two ASCII digits, a
  dot, two ASCII digits, a dot, four ASCII digits; and the day, month and year it names.
\<close>

definition strict_dmY :: "pystr \<Rightarrow> date option" where
  "strict_dmY s =
     (case s of
        [a, b, p, c, e, q, f, g, h, i] \<Rightarrow>
          if p = 46 \<and> q = 46 \<and> list_all ascii_digit [a, b, c, e, f, g, h, i]
          then Some \<lparr>year = int (1000 * (f - 48) + 100 * (g - 48) + 10 * (h - 48) + (i - 48)),
                     month = int (10 * (c - 48) + (e - 48)),
                     day = int (10 * (a - 48) + (b - 48))\<rparr>
          else None
      | _ \<Rightarrow> None)"

section \<open>Phone\<close>

lemma cp_isdigit_ascii: "(cp_isdigit c \<and> c < 128) = ascii_digit c"
  by (auto simp: cp_isdigit_def in_ranges_def isdigit_ranges_def ascii_digit_def)

lemma ascii_digit_isdigit: "ascii_digit c \<Longrightarrow> cp_isdigit c"
  using cp_isdigit_ascii [of c] by simp

text \<open>
  Claim C3, as stated: \<open>Phone(raw)\<close> succeeds if and only if \<open>raw\<close> is exactly ten ASCII
  digits. This fails: \<open>str.isdigit\<close> accepts every Unicode digit, so the ten Arabic-Indic
  digits U+0660 .. U+0669 make a phone.
\<close>

theorem Phone_ascii_only_counterexample:
  "\<not> ((\<exists>v. Phone [1632, 1633, 1634, 1635, 1636, 1637, 1638, 1639, 1640, 1641] = Inr v)
       \<longleftrightarrow> ten_ascii_digits [1632, 1633, 1634, 1635, 1636, 1637, 1638, 1639, 1640, 1641])"
  by (simp add: Phone_def isdigit_def cp_isdigit_def in_ranges_def isdigit_ranges_def
      ten_ascii_digits_def ascii_digit_def)

text \<open>
  Claim C3, amended: \<open>Phone(raw)\<close> succeeds if and only if \<open>raw\<close> has exactly ten
  characters and each is a digit in the sense of \<open>str.isdigit\<close>; the stored value is then
  \<open>raw\<close> unchanged, and every other input fails with the \<open>ValueError\<close> of the class. For a
  string of ASCII characters this is the pattern \<open>^[0-9]{10}$\<close>, and every string of that
  pattern is accepted.
\<close>

theorem Phone_ten_unicode_digits:
  "Phone raw = (if length raw = 10 \<and> list_all cp_isdigit raw then Inr raw
                else Inl (ValueError (ascii ''Phone must contain exactly 10 digits'')))
   \<and> (list_all (\<lambda>c. c < 128) raw \<longrightarrow> ((\<exists>v. Phone raw = Inr v) \<longleftrightarrow> ten_ascii_digits raw))
   \<and> (ten_ascii_digits raw \<longrightarrow> Phone raw = Inr raw)"
proof (intro conjI impI)
  show c: "Phone raw = (if length raw = 10 \<and> list_all cp_isdigit raw then Inr raw
                else Inl (ValueError (ascii ''Phone must contain exactly 10 digits'')))"
    by (auto simp: Phone_def isdigit_def)
  show "ten_ascii_digits raw \<Longrightarrow> Phone raw = Inr raw"
    by (auto simp: c ten_ascii_digits_def list_all_iff ascii_digit_isdigit)
  assume a: "list_all (\<lambda>c. c < 128) raw"
  have "list_all cp_isdigit raw = list_all ascii_digit raw"
    using a cp_isdigit_ascii by (auto simp: list_all_iff)
  then show "(\<exists>v. Phone raw = Inr v) \<longleftrightarrow> ten_ascii_digits raw"
    by (simp add: c ten_ascii_digits_def)
qed

theorem Phone_ten_unicode_digits_witness:
  "list_all (\<lambda>c. c < 128) (ascii ''0123456789'') \<and> ten_ascii_digits (ascii ''0123456789'')
   \<and> Phone (ascii ''0123456789'') = Inr (ascii ''0123456789'')"
proof -
  have a: "list_all (\<lambda>c. c < 128) (ascii ''0123456789'')"
    by (simp add: ascii_def)
  have b: "ten_ascii_digits (ascii ''0123456789'')"
    by (simp add: ascii_def ten_ascii_digits_def ascii_digit_def)
  from Phone_ten_unicode_digits [of "ascii ''0123456789''"] b
  have "Phone (ascii ''0123456789'') = Inr (ascii ''0123456789'')" by blast
  with a b show ?thesis by blast
qed

section \<open>Phones of a record\<close>

lemma find_phone_None: "find_phone ps p = None \<longleftrightarrow> p \<notin> set ps"
  by (induction ps) auto

lemma find_phone_Some:
  "find_phone ps p = Some i \<Longrightarrow> i < length ps \<and> ps ! i = p \<and> (\<forall>j<i. ps ! j \<noteq> p)"
proof (induction ps arbitrary: i)
  case Nil
  then show ?case by simp
next
  case (Cons q qs)
  show ?case
  proof (cases "q = p")
    case True
    with Cons.prems show ?thesis by simp
  next
    case False
    with Cons.prems obtain k where k: "find_phone qs p = Some k" "i = Suc k"
      by auto
    from Cons.IH [OF k(1)] have ih: "k < length qs" "qs ! k = p" "\<forall>j<k. qs ! j \<noteq> p"
      by simp_all
    show ?thesis
    proof (intro conjI allI impI)
      show "i < length (q # qs)" using k ih by simp
      show "(q # qs) ! i = p" using k ih by simp
      fix j assume "j < i"
      then show "(q # qs) ! j \<noteq> p" using False k ih by (cases j) auto
    qed
  qed
qed

lemma Phone_value: "Phone p = Inr v \<Longrightarrow> v = p"
  by (auto simp: Phone_def split: if_splits)

lemma add_phone_distinct:
  "distinct (phones r) \<Longrightarrow> distinct (phones (fst (add_phone r p)))"
  by (auto simp: add_phone_def split: sum.splits dest: Phone_value)

lemma remove_phone_distinct:
  "distinct (phones r) \<Longrightarrow> distinct (phones (fst (remove_phone r p)))"
  by (auto simp: remove_phone_def split: option.splits
      dest: in_set_takeD in_set_dropD set_take_disj_set_drop_if_distinct [of _ i "Suc i" for i])

text \<open>
  Claim C4: no two phones of a record hold the same value, and \<open>add_phone\<close>,
  \<open>remove_phone\<close> and \<open>edit_phone\<close> keep it so. \<open>add_phone\<close> checks for the value and
  \<open>remove_phone\<close> only removes (the two lemmas above); \<open>edit_phone\<close> makes no such
  check. Editing the first of two phones to the value of the second leaves the record
  with that value twice.
\<close>

theorem edit_phone_duplicates:
  "distinct (phones \<lparr>name = ascii ''ann'',
                     phones = [ascii ''1111111111'', ascii ''2222222222''],
                     birthday = None\<rparr>)
   \<and> edit_phone \<lparr>name = ascii ''ann'',
                  phones = [ascii ''1111111111'', ascii ''2222222222''],
                  birthday = None\<rparr> (ascii ''1111111111'') (ascii ''2222222222'')
     = (\<lparr>name = ascii ''ann'',
         phones = [ascii ''2222222222'', ascii ''2222222222''],
         birthday = None\<rparr>, None)"
  by (simp add: edit_phone_def Phone_def isdigit_def cp_isdigit_def in_ranges_def
      isdigit_ranges_def ascii_def)

text \<open>
  Claim C5: \<open>edit_phone(old, new)\<close> raises the not-found error when no phone has the
  value \<open>old\<close>; when \<open>old\<close> is present and \<open>new\<close> is not a valid phone it raises the
  validation error of \<open>Phone\<close> and the record is what it was; when it succeeds, the first
  phone with value \<open>old\<close> gets the value \<open>new\<close> at its position and nothing else changes.
\<close>

theorem edit_phone_atomic_in_place:
  "(old \<notin> set (phones r) \<longrightarrow>
      edit_phone r old new = (r, Some (ValueError (ascii ''Old phone not found''))))
   \<and> (old \<in> set (phones r) \<longrightarrow> (\<forall>e. Phone new = Inl e \<longrightarrow>
        e = ValueError (ascii ''Phone must contain exactly 10 digits'')
        \<and> edit_phone r old new = (r, Some e)))
   \<and> (old \<in> set (phones r) \<longrightarrow> (\<forall>v. Phone new = Inr v \<longrightarrow>
        (\<exists>i < length (phones r). phones r ! i = old \<and> (\<forall>j<i. phones r ! j \<noteq> old)
          \<and> edit_phone r old new = (r\<lparr>phones := (phones r)[i := new]\<rparr>, None))))"
proof (intro conjI impI allI)
  assume "old \<notin> set (phones r)"
  then have "find_phone (phones r) old = None" by (simp add: find_phone_None)
  then show "edit_phone r old new = (r, Some (ValueError (ascii ''Old phone not found'')))"
    by (simp add: edit_phone_def)
next
  fix e assume a: "old \<in> set (phones r)" "Phone new = Inl e"
  then obtain i where "find_phone (phones r) old = Some i"
    using find_phone_None [of "phones r" old] by (cases "find_phone (phones r) old") auto
  then show "edit_phone r old new = (r, Some e)" using a by (simp add: edit_phone_def)
  show "e = ValueError (ascii ''Phone must contain exactly 10 digits'')"
    using a(2) by (auto simp: Phone_def split: if_splits)
next
  fix v assume a: "old \<in> set (phones r)" "Phone new = Inr v"
  then obtain i where i: "find_phone (phones r) old = Some i"
    using find_phone_None [of "phones r" old] by (cases "find_phone (phones r) old") auto
  have v: "v = new" using a(2) by (auto simp: Phone_def split: if_splits)
  have "edit_phone r old new = (r\<lparr>phones := (phones r)[i := new]\<rparr>, None)"
    using i a(2) v by (simp add: edit_phone_def)
  with find_phone_Some [OF i]
  show "\<exists>i < length (phones r). phones r ! i = old \<and> (\<forall>j<i. phones r ! j \<noteq> old)
          \<and> edit_phone r old new = (r\<lparr>phones := (phones r)[i := new]\<rparr>, None)"
    by blast
qed

theorem edit_phone_atomic_in_place_witness:
  "edit_phone \<lparr>name = ascii ''ann'', phones = [ascii ''1111111111'', ascii ''2222222222''],
               birthday = None\<rparr> (ascii ''2222222222'') (ascii ''3333333333'')
   = (\<lparr>name = ascii ''ann'', phones = [ascii ''1111111111'', ascii ''3333333333''],
       birthday = None\<rparr>, None)
   \<and> edit_phone \<lparr>name = ascii ''ann'', phones = [ascii ''1111111111'', ascii ''2222222222''],
               birthday = None\<rparr> (ascii ''2222222222'') (ascii ''33'')
   = (\<lparr>name = ascii ''ann'', phones = [ascii ''1111111111'', ascii ''2222222222''],
       birthday = None\<rparr>, Some (ValueError (ascii ''Phone must contain exactly 10 digits'')))
   \<and> edit_phone \<lparr>name = ascii ''ann'', phones = [ascii ''1111111111'', ascii ''2222222222''],
               birthday = None\<rparr> (ascii ''4444444444'') (ascii ''3333333333'')
   = (\<lparr>name = ascii ''ann'', phones = [ascii ''1111111111'', ascii ''2222222222''],
       birthday = None\<rparr>, Some (ValueError (ascii ''Old phone not found'')))"
  using edit_phone_atomic_in_place [of "ascii ''2222222222''"
      "\<lparr>name = ascii ''ann'', phones = [ascii ''1111111111'', ascii ''2222222222''],
        birthday = None\<rparr>" "ascii ''33''"]
    edit_phone_atomic_in_place [of "ascii ''4444444444''"
      "\<lparr>name = ascii ''ann'', phones = [ascii ''1111111111'', ascii ''2222222222''],
        birthday = None\<rparr>" "ascii ''3333333333''"]
  by (simp add: edit_phone_def Phone_def isdigit_def cp_isdigit_def in_ranges_def
      isdigit_ranges_def ascii_def)

text \<open>
  Claim C7: \<open>add_phone(p)\<close> on a record that has a phone with value \<open>p\<close> returns without
  an error and leaves the record as it is; so for a valid \<open>p\<close> the first call succeeds
  and a second call changes nothing.
\<close>

theorem add_phone_idempotent:
  "(p \<in> set (phones r) \<longrightarrow> add_phone r p = (r, None))
   \<and> (Phone p = Inr p \<longrightarrow> snd (add_phone r p) = None \<and> p \<in> set (phones (fst (add_phone r p)))
        \<and> add_phone (fst (add_phone r p)) p = (fst (add_phone r p), None))"
  by (auto simp: add_phone_def)

theorem add_phone_idempotent_witness:
  "Phone (ascii ''1111111111'') = Inr (ascii ''1111111111'')
   \<and> add_phone \<lparr>name = ascii ''ann'', phones = [], birthday = None\<rparr> (ascii ''1111111111'')
     = (\<lparr>name = ascii ''ann'', phones = [ascii ''1111111111''], birthday = None\<rparr>, None)
   \<and> add_phone \<lparr>name = ascii ''ann'', phones = [ascii ''1111111111''], birthday = None\<rparr>
        (ascii ''1111111111'')
     = (\<lparr>name = ascii ''ann'', phones = [ascii ''1111111111''], birthday = None\<rparr>, None)"
proof -
  have v: "Phone (ascii ''1111111111'') = Inr (ascii ''1111111111'')"
    by (simp add: Phone_def isdigit_def cp_isdigit_def in_ranges_def isdigit_ranges_def
        ascii_def)
  have a: "add_phone \<lparr>name = ascii ''ann'', phones = [], birthday = None\<rparr>
             (ascii ''1111111111'')
           = (\<lparr>name = ascii ''ann'', phones = [ascii ''1111111111''], birthday = None\<rparr>,
              None)"
    by (simp add: add_phone_def v)
  from add_phone_idempotent
    [of "ascii ''1111111111''" "\<lparr>name = ascii ''ann'', phones = [], birthday = None\<rparr>"] v
  have "add_phone (fst (add_phone \<lparr>name = ascii ''ann'', phones = [], birthday = None\<rparr>
                         (ascii ''1111111111''))) (ascii ''1111111111'')
        = (fst (add_phone \<lparr>name = ascii ''ann'', phones = [], birthday = None\<rparr>
                         (ascii ''1111111111'')), None)"
    by blast
  with a v show ?thesis by simp
qed

section \<open>Deleting from the book\<close>

lemma map_of_filter_key:
  "map_of (filter (\<lambda>kv. fst kv \<noteq> nm) book) = (map_of book)(nm := None)"
  by (induction book) (auto simp: fun_eq_iff)

lemma filter_key_absent: "nm \<notin> fst ` set book \<Longrightarrow> filter (\<lambda>kv. fst kv \<noteq> nm) book = book"
  by (induction book) auto

lemma length_filter_key:
  "distinct (map fst book) \<Longrightarrow> nm \<in> fst ` set book \<Longrightarrow>
   length (filter (\<lambda>kv. fst kv \<noteq> nm) book) + 1 = length book"
proof (induction book)
  case Nil
  then show ?case by simp
next
  case (Cons kv book)
  show ?case
  proof (cases "fst kv = nm")
    case True
    with Cons.prems have "nm \<notin> fst ` set book" by auto
    then show ?thesis using True by (simp add: filter_key_absent)
  next
    case False
    with Cons show ?thesis by auto
  qed
qed

text \<open>
  Claim C6: \<open>delete(name)\<close> raises the not-found error when \<open>name\<close> is not a key, and
  the book is what it was; when \<open>name\<close> is a key the call returns, the entry of \<open>name\<close>
  is gone, every other entry is kept with its record and in its place, and (keys being
  unique in a dictionary) the book is one entry shorter.
\<close>

theorem delete_removes_exactly_one:
  "(nm \<notin> fst ` set book \<longrightarrow> delete book nm = (book, Some (ValueError (ascii ''Contact not found''))))
   \<and> (nm \<in> fst ` set book \<longrightarrow>
        snd (delete book nm) = None
        \<and> fst (delete book nm) = filter (\<lambda>kv. fst kv \<noteq> nm) book
        \<and> map_of (fst (delete book nm)) = (map_of book)(nm := None)
        \<and> (distinct (map fst book) \<longrightarrow> length (fst (delete book nm)) + 1 = length book))"
proof -
  have eq: "(\<lambda>(k, r). k \<noteq> nm) = (\<lambda>kv::pystr \<times> Record. fst kv \<noteq> nm)"
    by (simp add: fun_eq_iff)
  show ?thesis
    using length_filter_key [of book nm]
    by (simp add: delete_def eq map_of_filter_key)
qed

theorem delete_removes_exactly_one_witness:
  "delete [(ascii ''ann'', \<lparr>name = ascii ''ann'', phones = [], birthday = None\<rparr>),
           (ascii ''bob'', \<lparr>name = ascii ''bob'', phones = [], birthday = None\<rparr>)] (ascii ''ann'')
   = ([(ascii ''bob'', \<lparr>name = ascii ''bob'', phones = [], birthday = None\<rparr>)], None)
   \<and> delete [(ascii ''bob'', \<lparr>name = ascii ''bob'', phones = [], birthday = None\<rparr>)] (ascii ''ann'')
   = ([(ascii ''bob'', \<lparr>name = ascii ''bob'', phones = [], birthday = None\<rparr>)],
      Some (ValueError (ascii ''Contact not found'')))"
  using delete_removes_exactly_one [of "ascii ''ann''" "[(ascii ''ann'', \<lparr>name = ascii ''ann'', phones = [], birthday = None\<rparr>),
           (ascii ''bob'', \<lparr>name = ascii ''bob'', phones = [], birthday = None\<rparr>)]"]
    delete_removes_exactly_one [of "ascii ''ann''" "[(ascii ''bob'', \<lparr>name = ascii ''bob'', phones = [], birthday = None\<rparr>)]"]
  by (simp add: ascii_def prod_eq_iff)

section \<open>Loading the book\<close>

text \<open>
  Claim C9, as stated: \<open>load_data\<close> returns an empty book when the file does not exist
  or is empty, and raises only when the file holds structurally corrupt data. The last
  part fails: when the name is a directory, \<open>open\<close> raises \<open>IsADirectoryError\<close>, which
  the \<open>except\<close> clause does not catch, so \<open>load_data\<close> raises although there is no data
  at all, here with a decoder that accepts every content.
\<close>

theorem load_data_raises_without_data_counterexample:
  "load_data (\<lambda>bs. Inr []) (\<lambda>f. Inl IsADirectoryError) (ascii ''addressbook.pkl'')
   = Inl IsADirectoryError"
  by (simp add: load_data_def open_rb_def)

text \<open>
  Claim C9, amended: \<open>load_data\<close> returns an empty book when the file does not exist and
  when it is empty, and raises in neither case. When it raises, the error is neither
  \<open>FileNotFoundError\<close> nor \<open>EOFError\<close>, and either it is the error that opening the file
  raised (a directory, a missing permission, another error of the operating system), or
  the file was opened, is not empty, and it is the error the decoder raised on its
  content. Every error of these two kinds other than the two caught ones is raised.
\<close>

theorem load_data_missing_or_empty:
  "(fs fn = Inl FileNotFoundError \<longrightarrow> load_data u fs fn = Inr [])
   \<and> (fs fn = Inr [] \<longrightarrow> load_data u fs fn = Inr [])
   \<and> (\<forall>e. load_data u fs fn = Inl e \<longrightarrow>
          e \<noteq> FileNotFoundError \<and> e \<noteq> EOFError
          \<and> (fs fn = Inl e \<or> (\<exists>bs. fs fn = Inr bs \<and> bs \<noteq> [] \<and> u bs = Inl e)))
   \<and> (\<forall>e. e \<noteq> FileNotFoundError \<and> e \<noteq> EOFError
          \<and> (fs fn = Inl e \<or> (\<exists>bs. fs fn = Inr bs \<and> bs \<noteq> [] \<and> u bs = Inl e))
        \<longrightarrow> load_data u fs fn = Inl e)"
proof -
  have 1: "fs fn = Inl FileNotFoundError \<longrightarrow> load_data u fs fn = Inr []"
    by (simp add: load_data_def open_rb_def)
  have 2: "fs fn = Inr [] \<longrightarrow> load_data u fs fn = Inr []"
    by (simp add: load_data_def open_rb_def pickle_load_def)
  have 3: "\<forall>e. load_data u fs fn = Inl e \<longrightarrow>
          e \<noteq> FileNotFoundError \<and> e \<noteq> EOFError
          \<and> (fs fn = Inl e \<or> (\<exists>bs. fs fn = Inr bs \<and> bs \<noteq> [] \<and> u bs = Inl e))"
    by (auto simp: load_data_def open_rb_def pickle_load_def
        split: sum.splits error.splits if_splits)
  have 4: "\<forall>e. e \<noteq> FileNotFoundError \<and> e \<noteq> EOFError
          \<and> (fs fn = Inl e \<or> (\<exists>bs. fs fn = Inr bs \<and> bs \<noteq> [] \<and> u bs = Inl e))
        \<longrightarrow> load_data u fs fn = Inl e"
    by (auto simp: load_data_def open_rb_def pickle_load_def split: error.splits)
  from 1 2 3 4 show ?thesis by (intro conjI)
qed

theorem load_data_missing_or_empty_witness:
  "load_data (\<lambda>bs. Inl (OtherError (ascii ''UnpicklingError'')))
         (\<lambda>f. Inl FileNotFoundError) (ascii ''addressbook.pkl'') = Inr []
   \<and> load_data (\<lambda>bs. Inl (OtherError (ascii ''UnpicklingError'')))
         (\<lambda>f. Inr []) (ascii ''addressbook.pkl'') = Inr []
   \<and> load_data (\<lambda>bs. Inl (OtherError (ascii ''UnpicklingError'')))
         (\<lambda>f. Inr [128, 4]) (ascii ''addressbook.pkl'')
     = Inl (OtherError (ascii ''UnpicklingError''))
   \<and> load_data (\<lambda>bs. Inl (OtherError (ascii ''UnpicklingError'')))
         (\<lambda>f. Inl PermissionError) (ascii ''addressbook.pkl'') = Inl PermissionError"
proof -
  let ?u = "\<lambda>bs :: nat list. Inl (OtherError (ascii ''UnpicklingError'')) :: error + AddressBook"
  let ?fn = "ascii ''addressbook.pkl''"
  from load_data_missing_or_empty [of "\<lambda>f. Inl FileNotFoundError" ?fn ?u]
  have a: "load_data ?u (\<lambda>f. Inl FileNotFoundError) ?fn = Inr []" by blast
  from load_data_missing_or_empty [of "\<lambda>f. Inr []" ?fn ?u]
  have b: "load_data ?u (\<lambda>f. Inr []) ?fn = Inr []" by blast
  have "OtherError (ascii ''UnpicklingError'') \<noteq> FileNotFoundError"
    "OtherError (ascii ''UnpicklingError'') \<noteq> EOFError" "[128, 4] \<noteq> ([] :: nat list)"
    by simp_all
  with load_data_missing_or_empty [of "\<lambda>f. Inr [128, 4]" ?fn ?u]
  have c: "load_data ?u (\<lambda>f. Inr [128, 4]) ?fn = Inl (OtherError (ascii ''UnpicklingError''))"
    by blast
  have "PermissionError \<noteq> FileNotFoundError" "PermissionError \<noteq> EOFError" by simp_all
  with load_data_missing_or_empty [of "\<lambda>f. Inl PermissionError" ?fn ?u]
  have d: "load_data ?u (\<lambda>f. Inl PermissionError) ?fn = Inl PermissionError"
    by blast
  from a b c d show ?thesis by (intro conjI)
qed

section \<open>The calendar\<close>

lemma month_cases:
  "1 \<le> m \<Longrightarrow> m \<le> 12 \<Longrightarrow>
   m = 1 \<or> m = 2 \<or> m = 3 \<or> m = 4 \<or> m = 5 \<or> m = 6 \<or> m = 7 \<or> m = 8 \<or> m = 9 \<or> m = 10
   \<or> m = 11 \<or> m = (12::int)"
  by arith

lemma div_step:
  fixes y k :: int
  assumes "0 < k"
  shows "y div k - (y - 1) div k = (if y mod k = 0 then 1 else 0)"
proof (cases "y mod k = 0")
  case True
  have "y - 1 = k * (y div k - 1) + (k - 1)"
    using True by (simp add: algebra_simps) (metis mult_div_mod_eq add.right_neutral mult.commute)
  then have "(y - 1) div k = y div k - 1"
    using assms by (intro int_div_pos_eq [where r = "k - 1"]) auto
  with True show ?thesis by simp
next
  case False
  have m: "0 \<le> y mod k" "y mod k < k" using assms by simp_all
  have "y - 1 = k * (y div k) + (y mod k - 1)"
    by (simp add: algebra_simps)
  then have "(y - 1) div k = y div k"
    using assms m False by (intro int_div_pos_eq [where r = "y mod k - 1"]) auto
  with False show ?thesis by simp
qed

lemma mod_400_100: "(y::int) mod 400 = 0 \<Longrightarrow> y mod 100 = 0"
  using mod_mod_cancel [of 100 400 y] by simp

lemma mod_100_4: "(y::int) mod 100 = 0 \<Longrightarrow> y mod 4 = 0"
  using mod_mod_cancel [of 4 100 y] by simp

lemma is_leap_indicator:
  "(if is_leap y then 1 else 0 :: int) =
   (if y mod 4 = 0 then 1 else 0) - (if y mod 100 = 0 then 1 else 0)
   + (if y mod 400 = 0 then 1 else 0)"
proof (cases "y mod 400 = 0")
  case True
  then have "y mod 100 = 0" by (rule mod_400_100)
  then have "y mod 4 = 0" by (rule mod_100_4)
  with True \<open>y mod 100 = 0\<close> show ?thesis unfolding is_leap_def by simp
next
  case False
  show ?thesis
  proof (cases "y mod 100 = 0")
    case True
    then have "y mod 4 = 0" by (rule mod_100_4)
    with True False show ?thesis unfolding is_leap_def by simp
  next
    case h: False
    with False show ?thesis unfolding is_leap_def by simp
  qed
qed

lemma days_before_year_step:
  "days_before_year (y + 1) = days_before_year y + 365 + (if is_leap y then 1 else 0)"
proof -
  define a b c where "a = y div 4" and "b = y div 100" and "c = y div 400"
  define a' b' c' where "a' = (y - 1) div 4" and "b' = (y - 1) div 100"
    and "c' = (y - 1) div 400"
  define i j k :: int where "i = (if y mod 4 = 0 then 1 else 0)"
    and "j = (if y mod 100 = 0 then 1 else 0)" and "k = (if y mod 400 = 0 then 1 else 0)"
  have s: "a - a' = i" "b - b' = j" "c - c' = k"
    unfolding a_def b_def c_def a'_def b'_def c'_def i_def j_def k_def
    by (rule div_step, simp)+
  have l: "(if is_leap y then 1 else 0) = i - j + k"
    unfolding i_def j_def k_def by (rule is_leap_indicator)
  have n: "days_before_year (y + 1) = y * 365 + a - b + c"
    unfolding days_before_year_def Let_def a_def b_def c_def
    by (simp only: add_diff_cancel_right')
  have p: "days_before_year y = (y - 1) * 365 + a' - b' + c'"
    unfolding days_before_year_def Let_def a'_def b'_def c'_def by (rule refl)
  show ?thesis unfolding n p l using s by (simp add: algebra_simps)
qed

lemma days_before_month_step:
  "1 \<le> m \<Longrightarrow> m < 12 \<Longrightarrow>
   days_before_month y (m + 1) = days_before_month y m + days_in_month y m"
  using month_cases [of m]
  by (auto simp: days_before_month_def days_in_month_def DAYS_BEFORE_MONTH_def DAYS_IN_MONTH_def)

lemma days_before_december:
  "days_before_month y 12 + days_in_month y 12 = 365 + (if is_leap y then 1 else 0)"
  by (simp add: days_before_month_def days_in_month_def DAYS_BEFORE_MONTH_def DAYS_IN_MONTH_def)

lemma days_in_month_bounds: "1 \<le> m \<Longrightarrow> m \<le> 12 \<Longrightarrow> 28 \<le> days_in_month y m \<and> days_in_month y m \<le> 31"
  using month_cases [of m]
  by (auto simp: days_in_month_def DAYS_IN_MONTH_def)

lemma next_day_ok:
  assumes "valid_date d" "next_day d = Inr d'"
  shows "valid_date d' \<and> toordinal d' = toordinal d + 1"
proof -
  let ?dim = "days_in_month (year d) (month d)"
  from assms(1) have v: "1 \<le> year d" "year d \<le> 9999" "1 \<le> month d" "month d \<le> 12"
    "1 \<le> day d" "day d \<le> ?dim"
    by (simp_all add: valid_date_def)
  consider (a) "day d < ?dim" | (b) "day d = ?dim" "month d < 12"
    | (c) "day d = ?dim" "month d = 12" "year d < 9999"
    | (e) "day d = ?dim" "month d = 12" "year d = 9999"
    using v by linarith
  then show ?thesis
  proof cases
    case a
    with assms(2) have "d' = d\<lparr>day := day d + 1\<rparr>" by (simp add: next_day_def)
    with a v show ?thesis by (simp add: valid_date_def toordinal_def)
  next
    case b
    with assms(2) have d': "d' = \<lparr>year = year d, month = month d + 1, day = 1\<rparr>"
      by (simp add: next_day_def)
    have "1 \<le> days_in_month (year d) (month d + 1)"
      using days_in_month_bounds [of "month d + 1" "year d"] b v by simp
    with d' b v days_before_month_step [of "month d" "year d"] show ?thesis
      by (simp add: valid_date_def toordinal_def)
  next
    case c
    with assms(2) have d': "d' = \<lparr>year = year d + 1, month = 1, day = 1\<rparr>"
      by (simp add: next_day_def)
    have "days_before_month (year d + 1) 1 = 0" "1 \<le> days_in_month (year d + 1) 1"
      by (simp_all add: days_before_month_def days_in_month_def DAYS_BEFORE_MONTH_def
          DAYS_IN_MONTH_def)
    with d' c v days_before_december [of "year d"] days_before_year_step [of "year d"]
    show ?thesis
      by (simp add: valid_date_def toordinal_def)
  next
    case e
    with assms(2) show ?thesis by (simp add: next_day_def)
  qed
qed

lemma next_day_fails:
  assumes "valid_date d" "next_day d = Inl e"
  shows "d = \<lparr>year = 9999, month = 12, day = 31\<rparr>"
proof -
  from assms(2) have "day d \<ge> days_in_month (year d) (month d)" "month d \<ge> 12" "year d \<ge> 9999"
    by (auto simp: next_day_def split: if_splits)
  with assms(1) have "year d = 9999" "month d = 12" "day d = days_in_month 9999 12"
    by (auto simp: valid_date_def)
  then show ?thesis by (simp add: days_in_month_def DAYS_IN_MONTH_def)
qed

lemma weekday_last: "weekday \<lparr>year = 9999, month = 12, day = 31\<rparr> = 4"
  by (simp add: weekday_def toordinal_def days_before_year_def days_before_month_def
      DAYS_BEFORE_MONTH_def is_leap_def)

lemma weekday_range: "0 \<le> weekday d \<and> weekday d \<le> 6"
  by (simp add: weekday_def) 

lemma next_day_weekend:
  assumes "valid_date d" "weekday d \<ge> 5"
  shows "\<exists>d'. next_day d = Inr d' \<and> valid_date d' \<and> toordinal d' = toordinal d + 1
            \<and> weekday d' = (weekday d + 1) mod 7"
proof (cases "next_day d")
  case (Inl e)
  from next_day_fails [OF assms(1) Inl] weekday_last assms(2) show ?thesis by simp
next
  case (Inr d')
  from next_day_ok [OF assms(1) Inr] have "valid_date d'" "toordinal d' = toordinal d + 1"
    by simp_all
  moreover from this have "weekday d' = (weekday d + 1) mod 7"
    by (simp add: weekday_def mod_simps add.commute add.left_commute)
  ultimately show ?thesis using Inr by simp
qed

section \<open>Upcoming birthdays\<close>

lemma mk_date_Inr:
  "mk_date y m d = Inr x \<Longrightarrow> x = \<lparr>year = y, month = m, day = d\<rparr> \<and> valid_date x"
  by (auto simp: mk_date_def valid_date_def split: if_splits)

lemma mk_date_Inl: "mk_date y m d = Inl e \<Longrightarrow> \<exists>msg. e = ValueError msg"
  by (auto simp: mk_date_def split: if_splits)

lemma next_occurrence_Inr:
  assumes "next_occurrence today b = Inr occ"
  shows "valid_date occ \<and> occ = spec_occurrence today b"
proof (cases "replace_year b (year today)")
  case (Inl e)
  with assms show ?thesis by (simp add: next_occurrence_def)
next
  case (Inr this)
  from mk_date_Inr [OF Inr [unfolded replace_year_def]]
  have t: "this = \<lparr>year = year today, month = month b, day = day b\<rparr>" "valid_date this"
    by blast+
  show ?thesis
  proof (cases "date_lt this today")
    case True
    with assms Inr have "replace_year this (year today + 1) = Inr occ"
      by (simp add: next_occurrence_def)
    from mk_date_Inr [OF this [unfolded replace_year_def]] t True show ?thesis
      by (auto simp: spec_occurrence_def)
  next
    case False
    with assms Inr have "occ = this" by (simp add: next_occurrence_def)
    with t False show ?thesis by (simp add: spec_occurrence_def)
  qed
qed

lemma next_occurrence_Inl:
  "next_occurrence today b = Inl e \<Longrightarrow> \<exists>msg. e = ValueError msg"
  by (auto simp: next_occurrence_def replace_year_def split: sum.splits if_splits
      dest: mk_date_Inl)

lemma shift_saturday:
  assumes "valid_date occ" "weekday occ = 5"
  shows "\<exists>r. add_days occ 2 = Inr r \<and> valid_date r \<and> toordinal r = toordinal occ + 2
             \<and> weekday r = 0"
proof -
  from next_day_weekend [of occ] assms obtain d1 where
    d1: "next_day occ = Inr d1" "valid_date d1" "toordinal d1 = toordinal occ + 1"
      "weekday d1 = 6"
    by auto
  from next_day_weekend [of d1] d1 obtain d2 where
    d2: "next_day d1 = Inr d2" "valid_date d2" "toordinal d2 = toordinal d1 + 1"
      "weekday d2 = 0"
    by auto
  have "add_days occ (Suc (Suc 0)) = Inr d2" using d1 d2 by simp
  then have "add_days occ 2 = Inr d2" by (simp add: numeral_2_eq_2)
  with d1 d2 show ?thesis by simp
qed

lemma shift_sunday:
  assumes "valid_date occ" "weekday occ = 6"
  shows "\<exists>r. add_days occ 1 = Inr r \<and> valid_date r \<and> toordinal r = toordinal occ + 1
             \<and> weekday r = 0"
proof -
  from next_day_weekend [of occ] assms obtain d1 where
    d1: "next_day occ = Inr d1" "valid_date d1" "toordinal d1 = toordinal occ + 1"
      "weekday d1 = 0"
    by auto
  have "add_days occ (Suc 0) = Inr d1" using d1 by simp
  with d1 show ?thesis by simp
qed

lemma weekend_cases: "5 \<le> weekday d \<Longrightarrow> weekday d = 5 \<or> weekday d = 6"
  using weekday_range [of d] by linarith

lemma shift_weekend:
  assumes "valid_date occ" "5 \<le> weekday occ"
  shows "\<exists>r. add_days occ (nat (7 - weekday occ)) = Inr r \<and> valid_date r
             \<and> toordinal r = toordinal occ + (7 - weekday occ) \<and> weekday r = 0"
  using weekend_cases [OF assms(2)] shift_saturday [OF assms(1)] shift_sunday [OF assms(1)]
  by auto

lemma report_date_unfold:
  assumes "next_occurrence today b = Inr occ"
  shows "report_date today days b =
     (if 0 \<le> toordinal occ - toordinal today \<and> toordinal occ - toordinal today \<le> days
      then (if 5 \<le> weekday occ
            then (case add_days occ (nat (7 - weekday occ)) of
                    Inl e \<Rightarrow> Inl e | Inr s \<Rightarrow> Inr (Some s))
            else Inr (Some occ))
      else Inr None)"
  using assms by (simp add: report_date_def Let_def)

lemma report_date_Inl:
  assumes "report_date today days b = Inl e"
  shows "next_occurrence today b = Inl e \<and> (\<exists>msg. e = ValueError msg)"
proof (cases "next_occurrence today b")
  case (Inl e')
  with assms have "e' = e" by (simp add: report_date_def)
  with Inl next_occurrence_Inl [of today b e] show ?thesis by simp
next
  case (Inr occ)
  from next_occurrence_Inr [OF Inr] have v: "valid_date occ" by blast
  show ?thesis
  proof (cases "5 \<le> weekday occ")
    case True
    from shift_weekend [OF v True] obtain r where
      "add_days occ (nat (7 - weekday occ)) = Inr r" by blast
    with assms True show ?thesis
      by (simp add: report_date_unfold [OF Inr] split: if_splits)
  next
    case False
    with assms show ?thesis
      by (simp add: report_date_unfold [OF Inr] split: if_splits)
  qed
qed

lemma report_date_Inr:
  assumes "report_date today days b = Inr x"
  shows "(x = None) = (\<not> in_window today days b)"
proof (cases "next_occurrence today b")
  case (Inl e)
  with assms show ?thesis by (simp add: report_date_def)
next
  case (Inr occ)
  from next_occurrence_Inr [OF Inr] have o: "occ = spec_occurrence today b" by blast
  from assms show ?thesis
    unfolding report_date_unfold [OF Inr] in_window_def days_until_def o [symmetric]
    by (auto split: if_splits sum.splits)
qed

lemma upcoming_loop_Inr:
  "upcoming_loop today days rs acc = Inr out \<Longrightarrow>
   \<exists>ds. length ds = length (filter (selected today days) rs)
      \<and> out = acc @ map2 birthday_line (filter (selected today days) rs) ds
      \<and> (\<forall>i < length ds. \<exists>b. birthday (filter (selected today days) rs ! i) = Some b
             \<and> report_date today days b = Inr (Some (ds ! i)))"
proof (induction rs arbitrary: acc)
  case Nil
  then show ?case by simp
next
  case (Cons r rs)
  let ?sel = "filter (selected today days) rs"
  show ?case
  proof (cases "birthday r")
    case None
    with Cons.prems have "upcoming_loop today days rs acc = Inr out" by simp
    from Cons.IH [OF this] None show ?thesis by (simp add: selected_def)
  next
    case (Some b)
    show ?thesis
    proof (cases "report_date today days b")
      case (Inl e)
      with Some Cons.prems show ?thesis by simp
    next
      case (Inr x)
      show ?thesis
      proof (cases x)
        case None
        with report_date_Inr [OF Inr] Some have ns: "\<not> selected today days r"
          by (simp add: selected_def)
        from None Inr Some Cons.prems have "upcoming_loop today days rs acc = Inr out"
          by simp
        from Cons.IH [OF this] ns show ?thesis by simp
      next
        case (Some d)
        with report_date_Inr [OF Inr] \<open>birthday r = Some b\<close> have s: "selected today days r"
          by (simp add: selected_def)
        from Some Inr \<open>birthday r = Some b\<close> Cons.prems
        have "upcoming_loop today days rs (acc @ [birthday_line r d]) = Inr out" by simp
        from Cons.IH [OF this] obtain ds where ds: "length ds = length ?sel"
          "out = (acc @ [birthday_line r d]) @ map2 birthday_line ?sel ds"
          "\<forall>i < length ds. \<exists>b. birthday (?sel ! i) = Some b
               \<and> report_date today days b = Inr (Some (ds ! i))"
          by blast
        have "\<forall>i < length (d # ds). \<exists>b'. birthday ((r # ?sel) ! i) = Some b'
               \<and> report_date today days b' = Inr (Some ((d # ds) ! i))"
        proof (intro allI impI)
          fix i assume "i < length (d # ds)"
          then show "\<exists>b'. birthday ((r # ?sel) ! i) = Some b'
               \<and> report_date today days b' = Inr (Some ((d # ds) ! i))"
            using ds(3) Some Inr \<open>birthday r = Some b\<close> by (cases i) auto
        qed
        with ds(1,2) s show ?thesis
          by (intro exI [of _ "d # ds"]) simp
      qed
    qed
  qed
qed

lemma upcoming_loop_Inl:
  "upcoming_loop today days rs acc = Inl e \<Longrightarrow>
   \<exists>r \<in> set rs. \<exists>b. birthday r = Some b \<and> report_date today days b = Inl e"
  by (induction rs arbitrary: acc) (auto split: option.splits sum.splits)

lemma upcoming_loop_raises:
  "r \<in> set rs \<Longrightarrow> birthday r = Some b \<Longrightarrow> report_date today days b = Inl e \<Longrightarrow>
   \<exists>e'. upcoming_loop today days rs acc = Inl e'"
  by (induction rs arbitrary: acc) (auto split: option.splits sum.splits)









lemma report_date_Some:
  assumes "report_date today days b = Inr (Some d)"
  shows "\<exists>occ. next_occurrence today b = Inr occ
     \<and> (if 5 \<le> weekday occ
         then add_days occ (nat (7 - weekday occ)) = Inr d \<and> valid_date d \<and> weekday d = 0
              \<and> toordinal d = toordinal occ + (7 - weekday occ)
         else d = occ)"
proof (cases "next_occurrence today b")
  case (Inl e)
  with assms show ?thesis by (simp add: report_date_def)
next
  case (Inr occ)
  from next_occurrence_Inr [OF Inr] have v: "valid_date occ" by blast
  show ?thesis
  proof (cases "5 \<le> weekday occ")
    case True
    from shift_weekend [OF v True] obtain r where r: "add_days occ (nat (7 - weekday occ)) = Inr r"
      "valid_date r" "toordinal r = toordinal occ + (7 - weekday occ)" "weekday r = 0"
      by blast
    with assms True have "d = r"
      by (simp add: report_date_unfold [OF Inr] split: if_splits)
    with r True Inr show ?thesis by simp
  next
    case False
    with assms have "d = occ"
      by (simp add: report_date_unfold [OF Inr] split: if_splits)
    with False Inr show ?thesis by simp
  qed
qed

lemma leap_day_report:
  assumes "\<not> is_leap (year today)" "month b = 2" "day b = 29"
  shows "\<exists>e. report_date today days b = Inl e"
proof -
  have "days_in_month (year today) 2 = 28"
    using assms(1) by (simp add: days_in_month_def DAYS_IN_MONTH_def)
  then have "\<exists>e. replace_year b (year today) = Inl e"
    using assms(2,3) by (simp add: replace_year_def mk_date_def)
  then show ?thesis by (auto simp: report_date_def next_occurrence_def)
qed

lemma report_date_error_message:
  assumes "valid_date b" "1 \<le> year today" "year today < 9999" "report_date today days b = Inl e"
  shows "e = ValueError (ascii ''day is out of range for month'')"
proof -
  from report_date_Inl [OF assms(4)] have n: "next_occurrence today b = Inl e" by blast
  from assms(1) have v: "1 \<le> month b" "month b \<le> 12" by (simp_all add: valid_date_def)
  have m: "mk_date Y (month b) d = Inl x \<Longrightarrow> 1 \<le> Y \<Longrightarrow> Y \<le> 9999 \<Longrightarrow>
           x = ValueError (ascii ''day is out of range for month'')" for Y d x
    using v by (auto simp: mk_date_def split: if_splits)
  show ?thesis
  proof (cases "replace_year b (year today)")
    case (Inl x)
    with n have "x = e" by (simp add: next_occurrence_def)
    with m [of "year today" "day b" x] Inl assms(2,3) show ?thesis
      by (simp add: replace_year_def)
  next
    case (Inr this)
    from mk_date_Inr [OF Inr [unfolded replace_year_def]]
    have t: "this = \<lparr>year = year today, month = month b, day = day b\<rparr>" by blast
    from n Inr have "replace_year this (year today + 1) = Inl e"
      by (auto simp: next_occurrence_def split: if_splits)
    with m [of "year today + 1" "day b" e] t assms(2,3) show ?thesis
      by (simp add: replace_year_def)
  qed
qed





lemma weekend_shift_report:
  assumes "next_occurrence today b = Inr occ"
    "0 \<le> toordinal occ - toordinal today" "toordinal occ - toordinal today \<le> days"
  shows "(weekday occ < 5 \<longrightarrow> report_date today days b = Inr (Some occ))
     \<and> (5 \<le> weekday occ \<longrightarrow>
          (\<exists>r. report_date today days b = Inr (Some r)
             \<and> add_days occ (nat (7 - weekday occ)) = Inr r \<and> valid_date r
             \<and> toordinal r = toordinal occ + (7 - weekday occ) \<and> weekday r = 0))
     \<and> (weekday occ = 5 \<longrightarrow>
          (\<exists>r. report_date today days b = Inr (Some r) \<and> add_days occ 2 = Inr r
             \<and> toordinal r = toordinal occ + 2 \<and> weekday r = 0))
     \<and> (weekday occ = 6 \<longrightarrow>
          (\<exists>r. report_date today days b = Inr (Some r) \<and> add_days occ 1 = Inr r
             \<and> toordinal r = toordinal occ + 1 \<and> weekday r = 0))
     \<and> (\<forall>r. report_date today days b = Inr (Some r) \<longrightarrow>
          toordinal r - toordinal today
            = toordinal occ - toordinal today + (if 5 \<le> weekday occ then 7 - weekday occ else 0))"
proof -
  from next_occurrence_Inr [OF assms(1)] have v: "valid_date occ" by blast
  note u = report_date_unfold [OF assms(1), of days]
  have 1: "weekday occ < 5 \<longrightarrow> report_date today days b = Inr (Some occ)"
    using assms(2,3) by (simp add: u)
  have 2: "\<exists>r. report_date today days b = Inr (Some r)
             \<and> add_days occ (nat (7 - weekday occ)) = Inr r \<and> valid_date r
             \<and> toordinal r = toordinal occ + (7 - weekday occ) \<and> weekday r = 0"
    if w: "5 \<le> weekday occ"
  proof -
    from shift_weekend [OF v w] obtain r where r: "add_days occ (nat (7 - weekday occ)) = Inr r"
      "valid_date r" "toordinal r = toordinal occ + (7 - weekday occ)" "weekday r = 0"
      by blast
    with w assms(2,3) have "report_date today days b = Inr (Some r)" by (simp add: u)
    with r show ?thesis by blast
  qed
  have 3: "\<exists>r. report_date today days b = Inr (Some r) \<and> add_days occ 2 = Inr r
             \<and> toordinal r = toordinal occ + 2 \<and> weekday r = 0"
    if w: "weekday occ = 5"
    using 2 w by auto
  have 4: "\<exists>r. report_date today days b = Inr (Some r) \<and> add_days occ 1 = Inr r
             \<and> toordinal r = toordinal occ + 1 \<and> weekday r = 0"
    if w: "weekday occ = 6"
    using 2 w by auto
  have 5: "toordinal r - toordinal today
            = toordinal occ - toordinal today + (if 5 \<le> weekday occ then 7 - weekday occ else 0)"
    if "report_date today days b = Inr (Some r)" for r
  proof (cases "5 \<le> weekday occ")
    case True
    from 2 [OF True] that True show ?thesis by auto
  next
    case False
    with 1 that show ?thesis by auto
  qed
  from 1 2 3 4 5 show ?thesis by blast
qed

text \<open>
  Claim C2: for a selected record, an occurrence on Monday to Friday is reported as it is;
  one on a Saturday or Sunday is reported \<open>7 - weekday\<close> days later, that is 2 days for
  a Saturday and 1 day for a Sunday, which is a Monday. The shifted date is reported
  whatever its distance from today: that distance is the distance of the occurrence
  plus the shift, and nothing compares it with \<open>days\<close>. So every line of the result
  carries the occurrence of its record, shifted in this way.
\<close>

theorem weekend_shift_to_monday:
  "(next_occurrence today b = Inr occ
      \<and> 0 \<le> toordinal occ - toordinal today \<and> toordinal occ - toordinal today \<le> days \<longrightarrow>
       (weekday occ < 5 \<longrightarrow> report_date today days b = Inr (Some occ))
     \<and> (5 \<le> weekday occ \<longrightarrow>
          (\<exists>r. report_date today days b = Inr (Some r)
             \<and> add_days occ (nat (7 - weekday occ)) = Inr r \<and> valid_date r
             \<and> toordinal r = toordinal occ + (7 - weekday occ) \<and> weekday r = 0))
     \<and> (weekday occ = 5 \<longrightarrow>
          (\<exists>r. report_date today days b = Inr (Some r) \<and> add_days occ 2 = Inr r
             \<and> toordinal r = toordinal occ + 2 \<and> weekday r = 0))
     \<and> (weekday occ = 6 \<longrightarrow>
          (\<exists>r. report_date today days b = Inr (Some r) \<and> add_days occ 1 = Inr r
             \<and> toordinal r = toordinal occ + 1 \<and> weekday r = 0))
     \<and> (\<forall>r. report_date today days b = Inr (Some r) \<longrightarrow>
          toordinal r - toordinal today
            = toordinal occ - toordinal today
              + (if 5 \<le> weekday occ then 7 - weekday occ else 0)))
   \<and> (get_upcoming_birthdays book today days = Inr out \<longrightarrow>
        (\<exists>ds. length ds = length (filter (selected today days) (map snd book))
           \<and> out = map2 birthday_line (filter (selected today days) (map snd book)) ds
           \<and> (\<forall>i < length ds. \<exists>b' occ'.
                 birthday (filter (selected today days) (map snd book) ! i) = Some b'
                 \<and> next_occurrence today b' = Inr occ'
                 \<and> (if 5 \<le> weekday occ'
                     then add_days occ' (nat (7 - weekday occ')) = Inr (ds ! i)
                          \<and> valid_date (ds ! i) \<and> weekday (ds ! i) = 0
                          \<and> toordinal (ds ! i) = toordinal occ' + (7 - weekday occ')
                     else ds ! i = occ'))))"
proof (rule conjI; rule impI)
  assume "next_occurrence today b = Inr occ
      \<and> 0 \<le> toordinal occ - toordinal today \<and> toordinal occ - toordinal today \<le> days"
  then have a: "next_occurrence today b = Inr occ" "0 \<le> toordinal occ - toordinal today"
    "toordinal occ - toordinal today \<le> days"
    by blast+
  from weekend_shift_report [OF a]
  show "(weekday occ < 5 \<longrightarrow> report_date today days b = Inr (Some occ))
     \<and> (5 \<le> weekday occ \<longrightarrow>
          (\<exists>r. report_date today days b = Inr (Some r)
             \<and> add_days occ (nat (7 - weekday occ)) = Inr r \<and> valid_date r
             \<and> toordinal r = toordinal occ + (7 - weekday occ) \<and> weekday r = 0))
     \<and> (weekday occ = 5 \<longrightarrow>
          (\<exists>r. report_date today days b = Inr (Some r) \<and> add_days occ 2 = Inr r
             \<and> toordinal r = toordinal occ + 2 \<and> weekday r = 0))
     \<and> (weekday occ = 6 \<longrightarrow>
          (\<exists>r. report_date today days b = Inr (Some r) \<and> add_days occ 1 = Inr r
             \<and> toordinal r = toordinal occ + 1 \<and> weekday r = 0))
     \<and> (\<forall>r. report_date today days b = Inr (Some r) \<longrightarrow>
          toordinal r - toordinal today
            = toordinal occ - toordinal today
              + (if 5 \<le> weekday occ then 7 - weekday occ else 0))" .
next
  let ?sel = "filter (selected today days) (map snd book)"
  assume "get_upcoming_birthdays book today days = Inr out"
  then have "upcoming_loop today days (map snd book) [] = Inr out"
    by (simp add: get_upcoming_birthdays_def)
  from upcoming_loop_Inr [OF this] obtain ds where ds: "length ds = length ?sel"
    "out = map2 birthday_line ?sel ds"
    "\<forall>i < length ds. \<exists>b. birthday (?sel ! i) = Some b
        \<and> report_date today days b = Inr (Some (ds ! i))"
    by auto
  have "\<forall>i < length ds. \<exists>b' occ'. birthday (?sel ! i) = Some b'
                 \<and> next_occurrence today b' = Inr occ'
                 \<and> (if 5 \<le> weekday occ'
                     then add_days occ' (nat (7 - weekday occ')) = Inr (ds ! i)
                          \<and> valid_date (ds ! i) \<and> weekday (ds ! i) = 0
                          \<and> toordinal (ds ! i) = toordinal occ' + (7 - weekday occ')
                     else ds ! i = occ')"
  proof (intro allI impI)
    fix i assume "i < length ds"
    with ds(3) obtain b' where b': "birthday (?sel ! i) = Some b'"
      "report_date today days b' = Inr (Some (ds ! i))"
      by blast
    from report_date_Some [OF b'(2)] b'(1)
    show "\<exists>b' occ'. birthday (?sel ! i) = Some b'
                 \<and> next_occurrence today b' = Inr occ'
                 \<and> (if 5 \<le> weekday occ'
                     then add_days occ' (nat (7 - weekday occ')) = Inr (ds ! i)
                          \<and> valid_date (ds ! i) \<and> weekday (ds ! i) = 0
                          \<and> toordinal (ds ! i) = toordinal occ' + (7 - weekday occ')
                     else ds ! i = occ')"
      by blast
  qed
  with ds(1,2)
  show "\<exists>ds. length ds = length ?sel \<and> out = map2 birthday_line ?sel ds
           \<and> (\<forall>i < length ds. \<exists>b' occ'. birthday (?sel ! i) = Some b'
                 \<and> next_occurrence today b' = Inr occ'
                 \<and> (if 5 \<le> weekday occ'
                     then add_days occ' (nat (7 - weekday occ')) = Inr (ds ! i)
                          \<and> valid_date (ds ! i) \<and> weekday (ds ! i) = 0
                          \<and> toordinal (ds ! i) = toordinal occ' + (7 - weekday occ')
                     else ds ! i = occ'))"
    by blast
qed

theorem weekend_shift_to_monday_witness:
  "next_occurrence scenario_today \<lparr>year = 2024, month = 3, day = 16\<rparr>
     = Inr \<lparr>year = 2024, month = 3, day = 16\<rparr>
   \<and> weekday \<lparr>year = 2024, month = 3, day = 16\<rparr> = 5
   \<and> toordinal \<lparr>year = 2024, month = 3, day = 16\<rparr> - toordinal scenario_today = 6
   \<and> report_date scenario_today 6 \<lparr>year = 2024, month = 3, day = 16\<rparr>
     = Inr (Some \<lparr>year = 2024, month = 3, day = 18\<rparr>)
   \<and> toordinal \<lparr>year = 2024, month = 3, day = 18\<rparr> - toordinal scenario_today = 8
   \<and> weekday \<lparr>year = 2024, month = 3, day = 18\<rparr> = 0"
proof -
  have n: "next_occurrence scenario_today \<lparr>year = 2024, month = 3, day = 16\<rparr>
     = Inr \<lparr>year = 2024, month = 3, day = 16\<rparr>"
    by code_simp
  have w: "weekday \<lparr>year = 2024, month = 3, day = 16\<rparr> = 5" by code_simp
  have d: "toordinal \<lparr>year = 2024, month = 3, day = 16\<rparr> - toordinal scenario_today = 6"
    by code_simp
  have a: "add_days \<lparr>year = 2024, month = 3, day = 16\<rparr> 2
           = Inr \<lparr>year = 2024, month = 3, day = 18\<rparr>"
    by code_simp
  from weekend_shift_to_monday
    [of scenario_today "\<lparr>year = 2024, month = 3, day = 16\<rparr>"
        "\<lparr>year = 2024, month = 3, day = 16\<rparr>" 6] n d w a
  have "report_date scenario_today 6 \<lparr>year = 2024, month = 3, day = 16\<rparr>
          = Inr (Some \<lparr>year = 2024, month = 3, day = 18\<rparr>)
        \<and> toordinal \<lparr>year = 2024, month = 3, day = 18\<rparr>
            = toordinal \<lparr>year = 2024, month = 3, day = 16\<rparr> + 2
        \<and> weekday \<lparr>year = 2024, month = 3, day = 18\<rparr> = 0"
    by auto
  with n w d show ?thesis by simp
qed

text \<open>
  Claim C10: when the book holds a record born on 29.02. and the current year is not a
  leap year, \<open>get_upcoming_birthdays\<close> raises a \<open>ValueError\<close> and returns no list; with
  valid birthdays and a year of today below 9999 it is the error of the date
  construction, day is out of range for month.
\<close>

theorem leap_day_raises:
  assumes "\<not> is_leap (year today)" "(k, r) \<in> set book" "birthday r = Some b"
    "month b = 2" "day b = 29"
  shows "(\<exists>msg. get_upcoming_birthdays book today days = Inl (ValueError msg))
     \<and> (1 \<le> year today \<and> year today < 9999
          \<and> (\<forall>r' \<in> snd ` set book. \<forall>b'. birthday r' = Some b' \<longrightarrow> valid_date b')
        \<longrightarrow> get_upcoming_birthdays book today days
              = Inl (ValueError (ascii ''day is out of range for month'')))"
proof -
  from leap_day_report [OF assms(1,4,5)] obtain e where e: "report_date today days b = Inl e"
    by blast
  have "r \<in> set (map snd book)" using assms(2) by force
  from upcoming_loop_raises [OF this assms(3) e] obtain e' where
    e': "get_upcoming_birthdays book today days = Inl e'"
    by (auto simp: get_upcoming_birthdays_def)
  then have "upcoming_loop today days (map snd book) [] = Inl e'"
    by (simp add: get_upcoming_birthdays_def)
  from upcoming_loop_Inl [OF this] obtain r' b' where
    r': "r' \<in> set (map snd book)" "birthday r' = Some b'" "report_date today days b' = Inl e'"
    by blast
  from report_date_Inl [OF r'(3)] e' have 1: "\<exists>msg. get_upcoming_birthdays book today days = Inl (ValueError msg)"
    by auto
  have 2: "get_upcoming_birthdays book today days
              = Inl (ValueError (ascii ''day is out of range for month''))"
    if "1 \<le> year today \<and> year today < 9999
          \<and> (\<forall>r' \<in> snd ` set book. \<forall>b'. birthday r' = Some b' \<longrightarrow> valid_date b')"
  proof -
    from that r'(1,2) have "valid_date b'" by auto
    from report_date_error_message [OF this _ _ r'(3)] that e' show ?thesis by simp
  qed
  from 1 2 show ?thesis by blast
qed

theorem leap_day_raises_witness:
  "\<not> is_leap (year \<lparr>year = 2023, month = 2, day = 20\<rparr>)
   \<and> get_upcoming_birthdays
       [(ascii ''eve'', \<lparr>name = ascii ''eve'', phones = [],
                         birthday = Some \<lparr>year = 1990, month = 2, day = 21\<rparr>\<rparr>),
        (ascii ''leo'', \<lparr>name = ascii ''leo'', phones = [],
                         birthday = Some \<lparr>year = 2000, month = 2, day = 29\<rparr>\<rparr>)]
       \<lparr>year = 2023, month = 2, day = 20\<rparr> 7
     = Inl (ValueError (ascii ''day is out of range for month''))"
proof -
  have l: "\<not> is_leap (year \<lparr>year = 2023, month = 2, day = 20\<rparr>)" by code_simp
  have m: "(ascii ''leo'', \<lparr>name = ascii ''leo'', phones = [],
                         birthday = Some \<lparr>year = 2000, month = 2, day = 29\<rparr>\<rparr>)
      \<in> set [(ascii ''eve'', \<lparr>name = ascii ''eve'', phones = [],
                         birthday = Some \<lparr>year = 1990, month = 2, day = 21\<rparr>\<rparr>),
        (ascii ''leo'', \<lparr>name = ascii ''leo'', phones = [],
                         birthday = Some \<lparr>year = 2000, month = 2, day = 29\<rparr>\<rparr>)]"
    by simp
  have v: "valid_date \<lparr>year = 1990, month = 2, day = 21\<rparr>"
    "valid_date \<lparr>year = 2000, month = 2, day = 29\<rparr>"
    by code_simp+
  from leap_day_raises [OF l m, of "\<lparr>year = 2000, month = 2, day = 29\<rparr>" 7] v
  show ?thesis using l by simp
qed

section \<open>Birthdays as text\<close>

lemma rx_then_set_Cons: "rx_then (rx_set P) k (c # r) = (if P c then k [c] r else [])"
  by (simp add: rx_then_def rx_set_def)

lemma rx_then_set_Nil: "rx_then (rx_set P) k [] = []"
  by (simp add: rx_then_def rx_set_def)

lemma rx_then_alt: "rx_then (rx_alt a b) k s = rx_then a k s @ rx_then b k s"
  by (simp add: rx_then_def rx_alt_def)

lemma concat_concat_map: "concat (concat (map f xs)) = concat (map (\<lambda>x. concat (f x)) xs)"
  by (induction xs) simp_all

lemma rx_then_seq:
  "rx_then (rx_seq a b) k s = rx_then a (\<lambda>t1 r1. rx_then b (\<lambda>t2 r2. k (t1 @ t2) r2) r1) s"
  by (simp add: rx_then_def rx_seq_def map_concat case_prod_unfold comp_def concat_concat_map)

lemmas rx_then_simps = rx_then_set_Cons rx_then_set_Nil rx_then_alt rx_then_seq

lemma ascii_digit_decimal: "ascii_digit c \<Longrightarrow> cp_isdecimal c"
  by (simp add: ascii_digit_def cp_isdecimal_def in_ranges_def isdecimal_ranges_def)

lemma ascii_digit_value:
  assumes "ascii_digit c"
  shows "cp_decimal_value c = int (c - 48)"
proof -
  have l: "48 \<le> c" "c \<le> 57" "c - 48 < 10" using assms by (auto simp: ascii_digit_def)
  have "List.find (\<lambda>(lo, hi). lo \<le> c \<and> c \<le> hi) isdecimal_ranges = Some (48, 57)"
    using l(1,2) by (simp add: isdecimal_ranges_def)
  then have "cp_decimal_value c = int ((c - 48) mod 10)"
    by (simp add: cp_decimal_value_def)
  also have "(c - 48) mod 10 = c - 48" using l(3) by (rule mod_less)
  finally show ?thesis .
qed

lemma re_dmY_strict:
  assumes "ascii_digit a" "ascii_digit b" "ascii_digit c" "ascii_digit e"
    "ascii_digit f" "ascii_digit g" "ascii_digit h" "ascii_digit i"
  shows "re_dmY [a, b, 46, c, e, 46, f, g, h, i] =
     (if 1 \<le> 10 * (a - 48) + (b - 48) \<and> 10 * (a - 48) + (b - 48) \<le> 31
         \<and> 1 \<le> 10 * (c - 48) + (e - 48) \<and> 10 * (c - 48) + (e - 48) \<le> 12
      then [([a, b], [c, e], [f, g, h, i], [])] else [])"
proof -
  have d: "cp_isdecimal b" "cp_isdecimal f" "cp_isdecimal g" "cp_isdecimal h" "cp_isdecimal i"
    using assms by (simp_all add: ascii_digit_decimal)
  have Y: "rx_then re_Y k [f, g, h, i] = k [f, g, h, i] []" for k :: "pystr \<Rightarrow> pystr \<Rightarrow> 'a list"
    using d by (simp add: re_Y_def rx_digit_def rx_then_simps)
  have M: "rx_then re_m k (c # e # 46 # r) =
     (if 1 \<le> 10 * (c - 48) + (e - 48) \<and> 10 * (c - 48) + (e - 48) \<le> 12
      then k [c, e] (46 # r) else []) @ (if 49 \<le> c then k [c] (e # 46 # r) else [])"
    for k :: "pystr \<Rightarrow> pystr \<Rightarrow> 'a list" and r
    using assms(3,4) by (auto simp: re_m_def rx_chr_def rx_rng_def rx_then_simps ascii_digit_def)
  have D: "rx_then re_d k (a # b # 46 # r) =
     (if 1 \<le> 10 * (a - 48) + (b - 48) \<and> 10 * (a - 48) + (b - 48) \<le> 31
      then k [a, b] (46 # r) else []) @ (if 49 \<le> a then k [a] (b # 46 # r) else [])"
    for k :: "pystr \<Rightarrow> pystr \<Rightarrow> 'a list" and r
    using assms(1,2) d(1)
    by (auto simp: re_d_def rx_chr_def rx_rng_def rx_digit_def rx_then_simps ascii_digit_def)
  have b46: "b \<noteq> 46" "e \<noteq> 46" using assms(2,4) by (auto simp: ascii_digit_def)
  show ?thesis
    unfolding re_dmY_def D
    by (simp add: rx_chr_def rx_then_set_Cons M Y b46)
qed


lemma mk_date_eq:
  "mk_date y m d = Inr x \<longleftrightarrow> x = \<lparr>year = y, month = m, day = d\<rparr> \<and> valid_date x"
  by (auto simp: mk_date_def valid_date_def)

lemma py_int_2:
  assumes "ascii_digit a" "ascii_digit b"
  shows "py_int [a, b] = int (10 * (a - 48) + (b - 48))"
proof -
  have "a \<noteq> 32" using assms(1) by (simp add: ascii_digit_def)
  then show ?thesis using assms by (simp add: py_int_def ascii_digit_value)
qed

lemma py_int_4:
  assumes "ascii_digit f" "ascii_digit g" "ascii_digit h" "ascii_digit i"
  shows "py_int [f, g, h, i] = int (1000 * (f - 48) + 100 * (g - 48) + 10 * (h - 48) + (i - 48))"
proof -
  have "f \<noteq> 32" using assms(1) by (simp add: ascii_digit_def)
  then show ?thesis using assms by (simp add: py_int_def ascii_digit_value)
qed

lemma strict_dmY_Some:
  assumes "strict_dmY s = Some d"
  shows "\<exists>a b c e f g h i. s = [a, b, 46, c, e, 46, f, g, h, i]
     \<and> ascii_digit a \<and> ascii_digit b \<and> ascii_digit c \<and> ascii_digit e
     \<and> ascii_digit f \<and> ascii_digit g \<and> ascii_digit h \<and> ascii_digit i
     \<and> d = \<lparr>year = int (1000 * (f - 48) + 100 * (g - 48) + 10 * (h - 48) + (i - 48)),
             month = int (10 * (c - 48) + (e - 48)),
             day = int (10 * (a - 48) + (b - 48))\<rparr>"
  using assms by (auto simp: strict_dmY_def split: list.splits if_splits)

lemma Birthday_error:
  "Birthday s = Inl e \<Longrightarrow> e = ValueError (ascii ''Birthday must be in the format DD.MM.YYYY.'')"
  by (auto simp: Birthday_def strptime_dmY_def split: sum.splits error.splits list.splits
      if_splits dest: mk_date_Inl)

lemma Birthday_strict:
  assumes "strict_dmY s = Some d"
  shows "Birthday s = (if valid_date d then Inr d
     else Inl (ValueError (ascii ''Birthday must be in the format DD.MM.YYYY.'')))"
proof -
  from strict_dmY_Some [OF assms] obtain a b c e f g h i where
    s: "s = [a, b, 46, c, e, 46, f, g, h, i]" and
    dg: "ascii_digit a" "ascii_digit b" "ascii_digit c" "ascii_digit e"
      "ascii_digit f" "ascii_digit g" "ascii_digit h" "ascii_digit i" and
    d: "d = \<lparr>year = int (1000 * (f - 48) + 100 * (g - 48) + 10 * (h - 48) + (i - 48)),
             month = int (10 * (c - 48) + (e - 48)),
             day = int (10 * (a - 48) + (b - 48))\<rparr>"
    by blast
  let ?ok = "1 \<le> 10 * (a - 48) + (b - 48) \<and> 10 * (a - 48) + (b - 48) \<le> 31
         \<and> 1 \<le> 10 * (c - 48) + (e - 48) \<and> 10 * (c - 48) + (e - 48) \<le> 12"
  note re = re_dmY_strict [OF dg]
  show ?thesis
  proof (cases ?ok)
    case True
    then have "re_dmY s = [([a, b], [c, e], [f, g, h, i], [])]"
      unfolding s re by (rule if_P)
    then have "strptime_dmY s = mk_date (year d) (month d) (day d)"
      by (simp add: strptime_dmY_def py_int_2 py_int_4 dg d)
    moreover have "mk_date (year d) (month d) (day d) = Inr d \<longleftrightarrow> valid_date d"
      by (simp add: mk_date_eq)
    ultimately show ?thesis
      using mk_date_Inl [of "year d" "month d" "day d"]
      by (cases "mk_date (year d) (month d) (day d)") (auto simp: Birthday_def mk_date_eq)
  next
    case False
    then have "re_dmY s = []"
      unfolding s re by (rule if_not_P)
    then have "strptime_dmY s = Inl (ValueError (ascii ''time data does not match format''))"
      by (simp add: strptime_dmY_def)
    then have e: "Birthday s = Inl (ValueError (ascii ''Birthday must be in the format DD.MM.YYYY.''))"
      by (simp add: Birthday_def)
    have "\<not> valid_date d"
    proof
      assume v: "valid_date d"
      then have m: "1 \<le> month d" "month d \<le> 12" "1 \<le> day d"
        "day d \<le> days_in_month (year d) (month d)"
        by (simp_all add: valid_date_def)
      with days_in_month_bounds [of "month d" "year d"] have "day d \<le> 31" by simp
      with m False show False by (simp add: d)
    qed
    with e show ?thesis by simp
  qed
qed

lemma pad2_xy:
  assumes "y < 10"
  shows "pad2 (int (10 * x + y)) = [48 + x, 48 + y]"
proof -
  have n: "(10 * x + y) div 10 = x" "(10 * x + y) mod 10 = y" using assms by simp_all
  have "int (10 * x + y) div 10 = int ((10 * x + y) div 10)"
    "int (10 * x + y) mod 10 = int ((10 * x + y) mod 10)"
    using zdiv_int [of "10 * x + y" 10] zmod_int [of "10 * x + y" 10] by simp_all
  then have "nat (int (10 * x + y) div 10) = x" "nat (int (10 * x + y) mod 10) = y"
    unfolding n by simp_all
  then show ?thesis unfolding pad2_def by (simp only:)
qed

lemma pad2_digits:
  assumes "ascii_digit a" "ascii_digit b"
  shows "pad2 (int (10 * (a - 48) + (b - 48))) = [a, b]"
proof -
  have "b - 48 < 10" "48 + (a - 48) = a" "48 + (b - 48) = b"
    using assms by (auto simp: ascii_digit_def)
  with pad2_xy [of "b - 48" "a - 48"] show ?thesis by (simp only:)
qed

lemma decimal_digit: "r < 10 \<Longrightarrow> decimal r = [48 + r]"
  by (subst decimal.simps) simp

lemma decimal_step: "r < 10 \<Longrightarrow> 0 < q \<Longrightarrow> decimal (10 * q + r) = decimal q @ [48 + r]"
  by (subst decimal.simps) simp

lemma decimal_4:
  assumes "ascii_digit f" "ascii_digit g" "ascii_digit h" "ascii_digit i"
    "1000 \<le> 1000 * (f - 48) + 100 * (g - 48) + 10 * (h - 48) + (i - 48)"
  shows "decimal (1000 * (f - 48) + 100 * (g - 48) + 10 * (h - 48) + (i - 48)) = [f, g, h, i]"
proof -
  define F G H I where "F = f - 48" and "G = g - 48" and "H = h - 48" and "I = i - 48"
  have e: "f = 48 + F" "g = 48 + G" "h = 48 + H" "i = 48 + I"
    and l: "F < 10" "G < 10" "H < 10" "I < 10"
    using assms(1-4) by (auto simp: ascii_digit_def F_def G_def H_def I_def)
  have "1000 \<le> 1000 * F + 100 * G + 10 * H + I"
    using assms(5) by (simp add: F_def G_def H_def I_def)
  with l have F: "0 < F" by arith
  have eq: "1000 * F + 100 * G + 10 * H + I = 10 * (10 * (10 * F + G) + H) + I" by simp
  have 1: "decimal F = [48 + F]" using l(1) by (rule decimal_digit)
  have 2: "decimal (10 * F + G) = decimal F @ [48 + G]"
    using l(2) F by (rule decimal_step)
  have 3: "decimal (10 * (10 * F + G) + H) = decimal (10 * F + G) @ [48 + H]"
    using l(3) by (rule decimal_step) (use F in simp)
  have 4: "decimal (10 * (10 * (10 * F + G) + H) + I) = decimal (10 * (10 * F + G) + H) @ [48 + I]"
    using l(4) by (rule decimal_step) (use F in simp)
  have "decimal (1000 * F + 100 * G + 10 * H + I) = [48 + F, 48 + G, 48 + H, 48 + I]"
    unfolding eq 4 3 2 1 by simp
  then show ?thesis unfolding F_def [symmetric] G_def [symmetric] H_def [symmetric]
      I_def [symmetric] e [symmetric] .
qed

lemma strftime_strict:
  assumes "strict_dmY s = Some d" "1000 \<le> year d"
  shows "strftime_dmY d = s"
proof -
  from strict_dmY_Some [OF assms(1)] obtain a b c e f g h i where
    s: "s = [a, b, 46, c, e, 46, f, g, h, i]" and
    dg: "ascii_digit a" "ascii_digit b" "ascii_digit c" "ascii_digit e"
      "ascii_digit f" "ascii_digit g" "ascii_digit h" "ascii_digit i" and
    d: "d = \<lparr>year = int (1000 * (f - 48) + 100 * (g - 48) + 10 * (h - 48) + (i - 48)),
             month = int (10 * (c - 48) + (e - 48)),
             day = int (10 * (a - 48) + (b - 48))\<rparr>"
    by blast
  from assms(2) have "1000 \<le> 1000 * (f - 48) + 100 * (g - 48) + 10 * (h - 48) + (i - 48)"
    unfolding d by simp
  from decimal_4 [OF dg(5-8) this]
  have y: "decimal (nat (year d)) = [f, g, h, i]"
    unfolding d by (simp only: date.select_convs nat_int)
  have dm: "pad2 (day d) = [a, b]" "pad2 (month d) = [c, e]"
    unfolding d by (simp_all only: date.select_convs pad2_digits [OF dg(1,2)]
        pad2_digits [OF dg(3,4)])
  show ?thesis unfolding strftime_dmY_def y dm s by simp
qed

lemma rx_then_mem:
  "x \<in> set (rx_then a k s) \<longleftrightarrow> (\<exists>t r. (t, r) \<in> set (a s) \<and> x \<in> set (k t r))"
  by (auto simp: rx_then_def)
lemma rx_set_mem: "(t, r) \<in> set (rx_set P s) \<longleftrightarrow> (\<exists>c. s = c # r \<and> t = [c] \<and> P c)"
  by (cases s) (auto simp: rx_set_def)

lemma rx_seq_mem:
  "(t, r) \<in> set (rx_seq a b s) \<longleftrightarrow>
   (\<exists>t1 r1 t2. (t1, r1) \<in> set (a s) \<and> (t2, r) \<in> set (b r1) \<and> t = t1 @ t2)"
proof
  assume "(t, r) \<in> set (rx_seq a b s)"
  then obtain p where p: "p \<in> set (a s)"
    "(t, r) \<in> set (map (\<lambda>(t2, r2). (fst p @ t2, r2)) (b (snd p)))"
    by (auto simp: rx_seq_def case_prod_unfold)
  then obtain q where q: "q \<in> set (b (snd p))" "t = fst p @ fst q" "r = snd q"
    by (auto simp: case_prod_unfold)
  have "(fst p, snd p) \<in> set (a s)" "(fst q, r) \<in> set (b (snd p))"
    using p(1) q(1,3) by simp_all
  with q(2) show "\<exists>t1 r1 t2. (t1, r1) \<in> set (a s) \<and> (t2, r) \<in> set (b r1) \<and> t = t1 @ t2"
    by blast
next
  assume "\<exists>t1 r1 t2. (t1, r1) \<in> set (a s) \<and> (t2, r) \<in> set (b r1) \<and> t = t1 @ t2"
  then obtain t1 r1 t2 where "(t1, r1) \<in> set (a s)" "(t2, r) \<in> set (b r1)" "t = t1 @ t2"
    by blast
  then show "(t, r) \<in> set (rx_seq a b s)"
    by (force simp: rx_seq_def)
qed

lemma rx_alt_mem: "x \<in> set (rx_alt a b s) \<longleftrightarrow> x \<in> set (a s) \<or> x \<in> set (b s)"
  by (simp add: rx_alt_def)

lemmas rx_mem = rx_alt_mem rx_seq_mem rx_set_mem rx_chr_def rx_rng_def rx_digit_def

lemma rx_set_sound: "(t, r) \<in> set (rx_set P s) \<Longrightarrow> s = t @ r \<and> length t = 1"
  by (auto simp: rx_set_mem)

lemma rx_pair_sound:
  "(t, r) \<in> set (rx_seq (rx_set P) (rx_set Q) s) \<Longrightarrow> s = t @ r \<and> length t = 2"
  by (auto simp: rx_seq_mem rx_set_mem)

lemma re_d_sound:
  "(t, r) \<in> set (re_d s) \<Longrightarrow> s = t @ r \<and> (length t = 1 \<or> length t = 2)"
  unfolding re_d_def rx_alt_mem rx_chr_def rx_rng_def rx_digit_def
  using rx_set_sound rx_pair_sound by blast

lemma re_m_sound:
  "(t, r) \<in> set (re_m s) \<Longrightarrow> s = t @ r \<and> (length t = 1 \<or> length t = 2)"
  unfolding re_m_def rx_alt_mem rx_chr_def rx_rng_def
  using rx_set_sound rx_pair_sound by blast

lemma re_Y_sound:
  assumes "(t, r) \<in> set (re_Y s)"
  shows "s = t @ r \<and> length t = 4"
proof -
  from assms obtain t1 r1 t2 where 1: "(t1, r1) \<in> set (rx_digit s)"
    "(t2, r) \<in> set (rx_seq rx_digit (rx_seq rx_digit rx_digit) r1)" "t = t1 @ t2"
    unfolding re_Y_def rx_seq_mem [of t r rx_digit] by blast
  from 1(2) obtain t3 r3 t4 where 2: "(t3, r3) \<in> set (rx_digit r1)"
    "(t4, r) \<in> set (rx_seq rx_digit rx_digit r3)" "t2 = t3 @ t4"
    unfolding rx_seq_mem [of t2 r rx_digit] by blast
  from rx_set_sound [OF 1(1) [unfolded rx_digit_def]]
    rx_set_sound [OF 2(1) [unfolded rx_digit_def]]
    rx_pair_sound [OF 2(2) [unfolded rx_digit_def]] 1(3) 2(3)
  show ?thesis by simp
qed

lemma re_dmY_sound:
  assumes "(dt, mt, yt, r) \<in> set (re_dmY s)"
  shows "s = dt @ 46 # mt @ 46 # yt @ r \<and> (length dt = 1 \<or> length dt = 2)
     \<and> (length mt = 1 \<or> length mt = 2) \<and> length yt = 4"
proof -
  from assms obtain r1 r2 r3 r4 u v where
    "(dt, r1) \<in> set (re_d s)" "(u, r2) \<in> set (rx_chr 46 r1)" "(mt, r3) \<in> set (re_m r2)"
    "(v, r4) \<in> set (rx_chr 46 r3)" "(yt, r) \<in> set (re_Y r4)"
    unfolding re_dmY_def rx_then_mem by auto
  then show ?thesis
    using re_d_sound [of dt r1 s] re_m_sound [of mt r3 r2] re_Y_sound [of yt r r4]
      rx_set_mem [of u r2 "\<lambda>x. x = 46" r1] rx_set_mem [of v r4 "\<lambda>x. x = 46" r3]
    by (simp add: rx_chr_def)
qed

lemma Birthday_Inr:
  assumes "Birthday s = Inr d"
  shows "valid_date d \<and> (\<exists>dt mt yt. s = dt @ 46 # mt @ 46 # yt
      \<and> (length dt = 1 \<or> length dt = 2) \<and> (length mt = 1 \<or> length mt = 2) \<and> length yt = 4
      \<and> d = \<lparr>year = py_int yt, month = py_int mt, day = py_int dt\<rparr>)"
proof -
  from assms have p: "strptime_dmY s = Inr d"
    by (auto simp: Birthday_def split: sum.splits error.splits)
  then obtain dt mt yt xs where m: "re_dmY s = (dt, mt, yt, []) # xs"
    and k: "mk_date (py_int yt) (py_int mt) (py_int dt) = Inr d"
    by (auto simp: strptime_dmY_def split: list.splits if_splits)
  from m have "(dt, mt, yt, []) \<in> set (re_dmY s)" by simp
  from re_dmY_sound [OF this] mk_date_Inr [OF k] show ?thesis by auto
qed

lemmas strptime_eval = Birthday_def strptime_dmY_def re_dmY_def re_d_def re_m_def re_Y_def
  rx_chr_def rx_rng_def rx_digit_def rx_then_simps ascii_def cp_isdecimal_def in_ranges_def
  isdecimal_ranges_def py_int_def cp_decimal_value_def mk_date_def days_in_month_def
  DAYS_IN_MONTH_def is_leap_def

text \<open>
  Claim C8, as stated: a valid \<open>DD.MM.YYYY\<close> string round-trips, and any string that is
  not of that pattern (two-digit day, two-digit month, four-digit year) fails. The second
  part fails: \<open>strptime\<close> takes a day and a month of one digit, so \<open>1.3.2024\<close> is
  accepted, and it is formatted back as \<open>01.03.2024\<close>.
\<close>

theorem Birthday_strict_pattern_counterexample:
  "strict_dmY (ascii ''1.3.2024'') = None
   \<and> Birthday (ascii ''1.3.2024'') = Inr \<lparr>year = 2024, month = 3, day = 1\<rparr>
   \<and> strftime_dmY \<lparr>year = 2024, month = 3, day = 1\<rparr> = ascii ''01.03.2024''"
proof (intro conjI)
  show "strict_dmY (ascii ''1.3.2024'') = None"
    by (simp add: strict_dmY_def ascii_def)
  show "Birthday (ascii ''1.3.2024'') = Inr \<lparr>year = 2024, month = 3, day = 1\<rparr>"
    by (simp add: strptime_eval)
  show "strftime_dmY \<lparr>year = 2024, month = 3, day = 1\<rparr> = ascii ''01.03.2024''"
    by code_simp
qed

text \<open>
  Claim C8, amended: for every string of the form \<open>DD.MM.YYYY\<close> in ASCII digits that
  names a real date, \<open>Birthday\<close> succeeds with that date, and for a year from 1000 on
  formatting it back yields the string; a string of that form that names no real date
  fails. Whenever \<open>Birthday\<close> succeeds the string is a day of one or two characters, a
  dot, a month of one or two characters, a dot and a year of four characters, and the
  date is a real one; every failure is the \<open>ValueError\<close> of the class.
\<close>

theorem Birthday_round_trip:
  "(strict_dmY s = Some d \<and> valid_date d \<longrightarrow>
      Birthday s = Inr d \<and> (1000 \<le> year d \<longrightarrow> strftime_dmY d = s))
   \<and> (strict_dmY s = Some d \<and> \<not> valid_date d \<longrightarrow>
      Birthday s = Inl (ValueError (ascii ''Birthday must be in the format DD.MM.YYYY.'')))
   \<and> (\<forall>d'. Birthday s = Inr d' \<longrightarrow>
        valid_date d' \<and> (\<exists>dt mt yt. s = dt @ 46 # mt @ 46 # yt
          \<and> (length dt = 1 \<or> length dt = 2) \<and> (length mt = 1 \<or> length mt = 2)
          \<and> length yt = 4
          \<and> d' = \<lparr>year = py_int yt, month = py_int mt, day = py_int dt\<rparr>))
   \<and> (\<forall>e. Birthday s = Inl e \<longrightarrow>
        e = ValueError (ascii ''Birthday must be in the format DD.MM.YYYY.''))"
proof -
  have 1: "strict_dmY s = Some d \<and> valid_date d \<longrightarrow>
      Birthday s = Inr d \<and> (1000 \<le> year d \<longrightarrow> strftime_dmY d = s)"
    by (simp add: Birthday_strict strftime_strict)
  have 2: "strict_dmY s = Some d \<and> \<not> valid_date d \<longrightarrow>
      Birthday s = Inl (ValueError (ascii ''Birthday must be in the format DD.MM.YYYY.''))"
    by (simp add: Birthday_strict)
  have 3: "\<forall>d'. Birthday s = Inr d' \<longrightarrow>
        valid_date d' \<and> (\<exists>dt mt yt. s = dt @ 46 # mt @ 46 # yt
          \<and> (length dt = 1 \<or> length dt = 2) \<and> (length mt = 1 \<or> length mt = 2)
          \<and> length yt = 4
          \<and> d' = \<lparr>year = py_int yt, month = py_int mt, day = py_int dt\<rparr>)"
    using Birthday_Inr [of s] by blast
  have 4: "\<forall>e. Birthday s = Inl e \<longrightarrow>
        e = ValueError (ascii ''Birthday must be in the format DD.MM.YYYY.'')"
    using Birthday_error [of s] by blast
  from 1 2 3 4 show ?thesis by (intro conjI)
qed

theorem Birthday_round_trip_witness:
  "strict_dmY (ascii ''29.02.2024'') = Some \<lparr>year = 2024, month = 2, day = 29\<rparr>
   \<and> valid_date \<lparr>year = 2024, month = 2, day = 29\<rparr>
   \<and> Birthday (ascii ''29.02.2024'') = Inr \<lparr>year = 2024, month = 2, day = 29\<rparr>
   \<and> strftime_dmY \<lparr>year = 2024, month = 2, day = 29\<rparr> = ascii ''29.02.2024''
   \<and> strict_dmY (ascii ''29.02.2023'') = Some \<lparr>year = 2023, month = 2, day = 29\<rparr>
   \<and> \<not> valid_date \<lparr>year = 2023, month = 2, day = 29\<rparr>
   \<and> Birthday (ascii ''29.02.2023'')
     = Inl (ValueError (ascii ''Birthday must be in the format DD.MM.YYYY.''))"
proof -
  have a: "strict_dmY (ascii ''29.02.2024'') = Some \<lparr>year = 2024, month = 2, day = 29\<rparr>"
    "valid_date \<lparr>year = 2024, month = 2, day = 29\<rparr>"
    "(1000::int) \<le> year \<lparr>year = 2024, month = 2, day = 29\<rparr>"
    by (simp_all add: strict_dmY_def ascii_def ascii_digit_def valid_date_def
        days_in_month_def is_leap_def)
  have b: "strict_dmY (ascii ''29.02.2023'') = Some \<lparr>year = 2023, month = 2, day = 29\<rparr>"
    "\<not> valid_date \<lparr>year = 2023, month = 2, day = 29\<rparr>"
    by (simp_all add: strict_dmY_def ascii_def ascii_digit_def valid_date_def
        days_in_month_def DAYS_IN_MONTH_def is_leap_def)
  from Birthday_round_trip [of "ascii ''29.02.2024''" "\<lparr>year = 2024, month = 2, day = 29\<rparr>"] a
  have c: "Birthday (ascii ''29.02.2024'') = Inr \<lparr>year = 2024, month = 2, day = 29\<rparr>"
    "strftime_dmY \<lparr>year = 2024, month = 2, day = 29\<rparr> = ascii ''29.02.2024''"
    by blast+
  from Birthday_round_trip [of "ascii ''29.02.2023''" "\<lparr>year = 2023, month = 2, day = 29\<rparr>"] b
  have d: "Birthday (ascii ''29.02.2023'')
     = Inl (ValueError (ascii ''Birthday must be in the format DD.MM.YYYY.''))"
    by blast
  from a(1,2) b c d show ?thesis by (intro conjI)
qed

end
